theory Spec2Isabelle
  imports Main "HOL-Library.Char_ord" "HOL-Library.List_Lexorder" "HOL-Library.Product_Lexorder"
    "HOL-Library.Sublist" "HOL-Library.Multiset"
begin

section \<open>The collector (a5\_collect.py)\<close>

subsection \<open>Configuration constants\<close>

definition SEARCH_QUERY :: string where
  "SEARCH_QUERY = ''hip hop music''"

definition VIDEO_CATEGORY_ID :: string where
  "VIDEO_CATEGORY_ID = ''10''"

definition VIDEO_DURATION :: string where
  "VIDEO_DURATION = ''short''"

definition TARGET_VIDEO_COUNT :: nat where
  "TARGET_VIDEO_COUNT = 200"

definition OUTPUT_PATH :: string where
  "OUTPUT_PATH = ''data/my_hiphop_youtube_dataset.json''"

subsection \<open>search\_video\_ids\<close>

text \<open>
  One response of \<open>youtube.search().list(...).execute()\<close>: the \<open>videoId\<close> of every element
  of \<open>response.get("items", [])\<close>, in order, and \<open>response.get("nextPageToken")\<close>.
  The remote service is not part of the repository; the loop is modelled over the sequence
  of responses it serves, the \<open>k\<close>-th element answering the \<open>k\<close>-th request.
\<close>

record search_response =
  resp_items :: "string list"
  nextPageToken :: "string option"

text \<open>Python truthiness of \<open>page_token\<close>: \<open>None\<close> and the empty string are falsy.\<close>

definition not_token :: "string option \<Rightarrow> bool" where
  "not_token t = (case t of None \<Rightarrow> True | Some s \<Rightarrow> s = [])"

text \<open>
  The inner \<open>for item in response.get("items", [])\<close> loop: an id not yet in \<open>seen_ids\<close>
  is added to the set and appended to \<open>video_ids\<close>.
\<close>

fun add_items :: "string list \<Rightarrow> string list \<times> string set \<Rightarrow> string list \<times> string set" where
  "add_items [] (video_ids, seen_ids) = (video_ids, seen_ids)"
| "add_items (vid # rest) (video_ids, seen_ids) =
     (if vid \<notin> seen_ids then add_items rest (video_ids @ [vid], insert vid seen_ids)
      else add_items rest (video_ids, seen_ids))"

text \<open>
  The \<open>while len(video_ids) < TARGET_VIDEO_COUNT\<close> loop. The result is \<open>None\<close> when the
  loop asks for a further page and the given sequence of responses has none left: the
  model then says nothing about what the function returns.
\<close>

fun search_loop :: "search_response list \<Rightarrow> string list \<times> string set \<Rightarrow> string list option" where
  "search_loop [] (video_ids, seen_ids) =
     (if length video_ids < TARGET_VIDEO_COUNT then None else Some video_ids)"
| "search_loop (response # pages) (video_ids, seen_ids) =
     (if length video_ids < TARGET_VIDEO_COUNT then
        (let st = add_items (resp_items response) (video_ids, seen_ids) in
         if not_token (nextPageToken response) then Some (fst st)
         else search_loop pages st)
      else Some video_ids)"

definition search_video_ids :: "search_response list \<Rightarrow> string list option" where
  "search_video_ids pages = search_loop pages ([], {})"

subsection \<open>save\_dataset\<close>

text \<open>
  The dictionary built by \<open>save_dataset\<close>. The element type of \<open>items\<close> is left open: the
  function stores the list it is given. \<open>collectedAt\<close> comes from the clock, which is
  a parameter of the model.
\<close>

record 'v dataset =
  query :: string
  videoCategoryId :: string
  videoDuration :: string
  collectedAt :: string
  videoCount :: int
  items :: "'v list"

text \<open>
  The file system is a map from paths to the object serialised there; \<open>json.dump\<close> writes
  the dataset to \<open>OUTPUT_PATH\<close>, replacing what was there.
\<close>

definition save_dataset :: "string \<Rightarrow> 'v list \<Rightarrow> (string \<rightharpoonup> 'v dataset) \<Rightarrow> (string \<rightharpoonup> 'v dataset)" where
  "save_dataset utcnow videos fs =
     (let ds = \<lparr> query = SEARCH_QUERY,
                 videoCategoryId = VIDEO_CATEGORY_ID,
                 videoDuration = VIDEO_DURATION,
                 collectedAt = utcnow @ ''Z'',
                 videoCount = int (length videos),
                 items = videos \<rparr>
      in fs(OUTPUT_PATH \<mapsto> ds))"


section \<open>Rich-get-richer analysis (s3.py)\<close>

subsection \<open>Python strings\<close>

text \<open>
  A string is a list of characters, a character standing for the code point of its
  number, from 0 to 255. \<open>str.lower\<close> maps the letters \<open>A\<close> to \<open>Z\<close> to \<open>a\<close> to
  \<open>z\<close> and the capital letters U+00C0 to U+00DE, except the multiplication sign
  U+00D7, to the letters 32 code points above them; every other character is kept.
\<close>

definition upper_letters :: "char list" where
  "upper_letters =
     ''ABCDEFGHIJKLMNOPQRSTUVWXYZ'' @
     [CHR 0xC0, CHR 0xC1, CHR 0xC2, CHR 0xC3, CHR 0xC4, CHR 0xC5, CHR 0xC6,
      CHR 0xC7, CHR 0xC8, CHR 0xC9, CHR 0xCA, CHR 0xCB, CHR 0xCC, CHR 0xCD,
      CHR 0xCE, CHR 0xCF, CHR 0xD0, CHR 0xD1, CHR 0xD2, CHR 0xD3, CHR 0xD4,
      CHR 0xD5, CHR 0xD6, CHR 0xD8, CHR 0xD9, CHR 0xDA, CHR 0xDB, CHR 0xDC,
      CHR 0xDD, CHR 0xDE]"

definition lower_letters :: "char list" where
  "lower_letters =
     ''abcdefghijklmnopqrstuvwxyz'' @
     [CHR 0xE0, CHR 0xE1, CHR 0xE2, CHR 0xE3, CHR 0xE4, CHR 0xE5, CHR 0xE6,
      CHR 0xE7, CHR 0xE8, CHR 0xE9, CHR 0xEA, CHR 0xEB, CHR 0xEC, CHR 0xED,
      CHR 0xEE, CHR 0xEF, CHR 0xF0, CHR 0xF1, CHR 0xF2, CHR 0xF3, CHR 0xF4,
      CHR 0xF5, CHR 0xF6, CHR 0xF8, CHR 0xF9, CHR 0xFA, CHR 0xFB, CHR 0xFC,
      CHR 0xFD, CHR 0xFE]"

definition lower_char :: "char \<Rightarrow> char" where
  "lower_char c =
     (case map_of (zip upper_letters lower_letters) c of
        None \<Rightarrow> c
      | Some l \<Rightarrow> l)"

definition lower :: "string \<Rightarrow> string" where
  "lower s = map lower_char s"

text \<open>
  \<open>str.strip()\<close> removes leading and trailing white space: the code points 9 to 13,
  28 to 32, U+0085 and U+00A0.
\<close>

definition is_space :: "char \<Rightarrow> bool" where
  "is_space c =
     (c \<in> set [CHR 0x09, CHR 0x0A, CHR 0x0B, CHR 0x0C, CHR 0x0D,
                CHR 0x1C, CHR 0x1D, CHR 0x1E, CHR 0x1F, CHR 0x20, CHR 0x85, CHR 0xA0])"

definition strip :: "string \<Rightarrow> string" where
  "strip s = rev (dropWhile is_space (rev (dropWhile is_space s)))"

text \<open>\<open>s.split(sep)\<close> for a one-character separator: the empty string yields one empty piece.\<close>

fun split :: "char \<Rightarrow> string \<Rightarrow> string list" where
  "split sep [] = [[]]"
| "split sep (c # cs) =
     (if c = sep then [] # split sep cs
      else (case split sep cs of [] \<Rightarrow> [[c]] | w # ws \<Rightarrow> (c # w) # ws))"

text \<open>\<open>sep.join(xs)\<close>\<close>

fun join :: "string \<Rightarrow> string list \<Rightarrow> string" where
  "join sep [] = []"
| "join sep [x] = x"
| "join sep (x # y # xs) = x @ sep @ join sep (y # xs)"

text \<open>\<open>a in s\<close> on strings holds when \<open>a\<close> occurs in \<open>s\<close> as a contiguous piece.\<close>

definition str_in :: "string \<Rightarrow> string \<Rightarrow> bool" where
  "str_in a s = sublist a s"

subsection \<open>Records of the two data sets\<close>

text \<open>
  A calendar date (\<open>datetime.date\<close>) is a triple of year, month and day; dates compare
  chronologically, which is the lexicographic order on the triples.
\<close>

type_synonym date = "nat \<times> nat \<times> nat"

text \<open>The track dictionaries that \<open>iter_spotify_days\<close> builds.\<close>

record track =
  sp_id :: string
  sp_name :: string
  sp_artists :: string
  sp_position :: nat

text \<open>
  What the analysis reads of a YouTube video object: \<open>v["id"]\<close>, \<open>v["snippet"]["title"]\<close>
  and the integer \<open>int(v["statistics"]["viewCount"])\<close>.
\<close>

record video =
  yt_id :: string
  yt_title :: string
  yt_viewCount :: int

datatype py_error =
  FileNotFoundError | BadZipFile | TypeError | ValueError | KeyError | IndexError |
  AttributeError

subsection \<open>\_build\_spotify\_youtube\_mapping\<close>

text \<open>First pass: the first video whose title holds the track name and one of the artists.\<close>

fun first_pass :: "string \<Rightarrow> string list \<Rightarrow> video list \<Rightarrow> string option" where
  "first_pass track_name artist_tokens [] = None"
| "first_pass track_name artist_tokens (v # yt_videos) =
     (let title = lower (yt_title v) in
      if str_in track_name title \<and> list_ex (\<lambda>a. str_in a title) artist_tokens
      then Some (yt_id v)
      else first_pass track_name artist_tokens yt_videos)"

text \<open>Second pass: the first video whose title holds the track name.\<close>

fun second_pass :: "string \<Rightarrow> video list \<Rightarrow> string option" where
  "second_pass track_name [] = None"
| "second_pass track_name (v # yt_videos) =
     (let title = lower (yt_title v) in
      if str_in track_name title then Some (yt_id v)
      else second_pass track_name yt_videos)"

text \<open>The body of the loop over the tracks: \<open>best_yt_id\<close> for one track.\<close>

definition best_yt_id :: "track \<Rightarrow> video list \<Rightarrow> string option" where
  "best_yt_id t yt_videos =
     (let track_name = lower (sp_name t);
          artist_tokens = map (\<lambda>a. lower (strip a)) (split CHR '','' (sp_artists t));
          best = first_pass track_name artist_tokens yt_videos
      in if best = None then second_pass track_name yt_videos else best)"

fun mapping_loop :: "track list \<Rightarrow> video list \<Rightarrow> (string \<rightharpoonup> string) \<Rightarrow> (string \<rightharpoonup> string)" where
  "mapping_loop [] yt_videos mapping = mapping"
| "mapping_loop (t # sp_tracks) yt_videos mapping =
     (case best_yt_id t yt_videos of
        None \<Rightarrow> mapping_loop sp_tracks yt_videos mapping
      | Some y \<Rightarrow> mapping_loop sp_tracks yt_videos (mapping(sp_id t \<mapsto> y)))"

text \<open>
  A dictionary comprehension \<open>{k: v for k, v in pairs}\<close>: a later pair replaces an earlier
  one with the same key.
\<close>

definition dict_of :: "('k \<times> 'v) list \<Rightarrow> ('k \<rightharpoonup> 'v)" where
  "dict_of pairs = fold (\<lambda>(k, v) m. m(k \<mapsto> v)) pairs Map.empty"

text \<open>\<open>sorted(set(a.keys()) & set(b.keys()))\<close>\<close>

definition common_dates :: "(date \<times> 'a) list \<Rightarrow> (date \<times> 'b) list \<Rightarrow> date list" where
  "common_dates yt_days sp_days =
     sort (remdups (filter (\<lambda>d. d \<in> set (map fst sp_days)) (map fst yt_days)))"

definition lookup :: "('k \<rightharpoonup> 'v) \<Rightarrow> 'k \<Rightarrow> py_error + 'v" where
  "lookup m k = (case m k of None \<Rightarrow> Inl KeyError | Some v \<Rightarrow> Inr v)"

subsection \<open>Rank assignment in compare\_spotify\_youtube\_rankings\<close>

text \<open>
  \<open>sorted(xs, key=key, reverse=True)\<close>: Python's sort is stable, also with
  \<open>reverse=True\<close>, so the result lists the elements by descending key and keeps elements
  of equal key in their input order. The stable insertion sort on the negated key computes
  that list.
\<close>

definition sorted_reverse :: "('a \<Rightarrow> int) \<Rightarrow> 'a list \<Rightarrow> 'a list" where
  "sorted_reverse key xs = sort_key (\<lambda>x. - key x) xs"

definition yt_sorted :: "video list \<Rightarrow> video list" where
  "yt_sorted yt_videos = sorted_reverse yt_viewCount yt_videos"

text \<open>\<open>enumerate(yt_sorted, start=1)\<close>: the ranked series.\<close>

definition ranked :: "video list \<Rightarrow> (nat \<times> video) list" where
  "ranked yt_videos = enumerate 1 (yt_sorted yt_videos)"

text \<open>\<open>yt_rank = {v["id"]: rank for rank, v in enumerate(yt_sorted, start=1)}\<close>\<close>

definition yt_rank :: "video list \<Rightarrow> (string \<rightharpoonup> nat)" where
  "yt_rank yt_videos = dict_of (map (\<lambda>(rank, v). (yt_id v, rank)) (ranked yt_videos))"

subsection \<open>Rank and popularity series of the distribution plots\<close>

text \<open>
  \<open>plot_viewcount_distributions\<close> (s3.py): \<open>views_sorted = sorted(views, reverse=True)\<close>
  and \<open>ranks = list(range(1, len(views_sorted) + 1))\<close>.
\<close>

definition views_sorted :: "int list \<Rightarrow> int list" where
  "views_sorted views = sorted_reverse (\<lambda>x. x) views"

text \<open>
  \<open>plot_linear_distribution\<close> (a5\_analyze.py): \<open>sorted_views = np.sort(view_counts)[::-1]\<close>
  and \<open>ranks = np.arange(1, len(sorted_views) + 1)\<close>, on integer view counts.
\<close>

definition sorted_views :: "int list \<Rightarrow> int list" where
  "sorted_views view_counts = rev (sort view_counts)"

definition ranks :: "'a list \<Rightarrow> nat list" where
  "ranks sorted_vals = [1..<length sorted_vals + 1]"

subsection \<open>The two passes, as the specification words them\<close>

text \<open>
  The strict pass accepts a video whose lowercased title contains the lowercased track
  name and at least one of the lowercased artist tokens; the relaxed pass accepts a
  video whose lowercased title contains the lowercased track name.
\<close>

definition strict_match :: "track \<Rightarrow> video \<Rightarrow> bool" where
  "strict_match t v =
     (str_in (lower (sp_name t)) (lower (yt_title v)) \<and>
      list_ex (\<lambda>a. str_in a (lower (yt_title v)))
        (map (\<lambda>a. lower (strip a)) (split CHR '','' (sp_artists t))))"

definition relaxed_match :: "track \<Rightarrow> video \<Rightarrow> bool" where
  "relaxed_match t v = str_in (lower (sp_name t)) (lower (yt_title v))"

section \<open>Data set loaders (s1.py, s3.py, a5\_analyze.py)\<close>

subsection \<open>Parsed JSON and the files that hold it\<close>

text \<open>
  A parsed JSON document as the Python objects \<open>json.load\<close> returns. Numbers are
  integers (no document field read here is fractional). A dictionary lists each key
  once; \<open>map_of\<close> reads it.
\<close>

datatype json =
    JNull
  | JBool bool
  | JInt int
  | JStr string
  | JList "json list"
  | JDict "(string \<times> json) list"

text \<open>
  A file is a zip archive, with its members in archive order, or a plain file. A content
  of \<open>None\<close> is one that does not parse as JSON. The file system maps the paths that
  exist to files.
\<close>

datatype 'd fs_file =
    ZipArchive "(string \<times> 'd option) list"
  | PlainFile "'d option"

type_synonym 'd filesystem = "string \<rightharpoonup> 'd fs_file"

text \<open>
  \<open>z.read(name)\<close> and \<open>zf.open(name)\<close> with \<open>json.load\<close>: the archive's directory keeps
  the last member of a name; a content that is not JSON raises a \<open>ValueError\<close>
  (\<open>JSONDecodeError\<close> and \<open>UnicodeDecodeError\<close> are subclasses of it).
\<close>

definition zip_read :: "(string \<times> 'd option) list \<Rightarrow> string \<Rightarrow> py_error + 'd" where
  "zip_read members name =
     (case dict_of members name of
        None \<Rightarrow> Inl KeyError
      | Some None \<Rightarrow> Inl ValueError
      | Some (Some data) \<Rightarrow> Inr data)"

subsection \<open>File names and dates\<close>

definition endswith :: "string \<Rightarrow> string \<Rightarrow> bool" where
  "endswith s suf = suffix suf s"

text \<open>\<open>os.path.basename\<close>: what follows the last slash.\<close>

definition basename :: "string \<Rightarrow> string" where
  "basename p = rev (takeWhile (\<lambda>c. c \<noteq> CHR ''/'') (rev p))"

text \<open>\<open>s.split("_")[0]\<close>\<close>

definition first_field :: "string \<Rightarrow> string" where
  "first_field s = (case split CHR ''_'' s of [] \<Rightarrow> [] | w # ws \<Rightarrow> w)"

definition digit_of :: "char \<Rightarrow> nat option" where
  "digit_of c =
     map_of [(CHR ''0'', 0), (CHR ''1'', 1), (CHR ''2'', 2), (CHR ''3'', 3), (CHR ''4'', 4),
             (CHR ''5'', 5), (CHR ''6'', 6), (CHR ''7'', 7), (CHR ''8'', 8), (CHR ''9'', 9)] c"

definition is_digit :: "char \<Rightarrow> bool" where
  "is_digit c = (digit_of c \<noteq> None)"

definition digit :: "char \<Rightarrow> nat" where
  "digit c = (case digit_of c of None \<Rightarrow> 0 | Some n \<Rightarrow> n)"

text \<open>
  \<open>str.isdigit\<close>: a non-empty string of digit characters, which besides \<open>0\<close> to \<open>9\<close> are
  the superscripts U+00B2, U+00B3 and U+00B9. Only \<open>0\<close> to \<open>9\<close> are decimal digits for
  \<open>\d\<close> and \<open>int\<close>.
\<close>

definition isdigit :: "string \<Rightarrow> bool" where
  "isdigit s =
     (s \<noteq> [] \<and> list_all (\<lambda>c. is_digit c \<or> c \<in> set [CHR 0xB2, CHR 0xB3, CHR 0xB9]) s)"

text \<open>
  \<open>datetime.strptime(s, "%Y%m%d")\<close>. The format compiles to the regular expression
  \<open>(?P<Y>\d\d\d\d)(?P<m>1[0-2]|0[1-9]|[1-9])(?P<d>3[0-1]|[1-2]\d|0[1-9]|[1-9]| [1-9])\<close>,
  matched at the start of \<open>s\<close>; the first match in the order of the alternatives is
  taken, and text left over after it is an error. \<open>two p q\<close> and \<open>one p\<close> are the
  alternatives of two characters and of one, each giving the number read and the rest.
\<close>

fun two :: "(char \<Rightarrow> bool) \<Rightarrow> (char \<Rightarrow> bool) \<Rightarrow> string \<Rightarrow> (nat \<times> string) list" where
  "two p q (c1 # c2 # r) = (if p c1 \<and> q c2 then [(10 * digit c1 + digit c2, r)] else [])"
| "two p q s = []"

fun one :: "(char \<Rightarrow> bool) \<Rightarrow> string \<Rightarrow> (nat \<times> string) list" where
  "one p (c # r) = (if p c then [(digit c, r)] else [])"
| "one p [] = []"

fun space_one :: "(char \<Rightarrow> bool) \<Rightarrow> string \<Rightarrow> (nat \<times> string) list" where
  "space_one p (c1 # c2 # r) = (if c1 = CHR '' '' \<and> p c2 then [(digit c2, r)] else [])"
| "space_one p s = []"

definition match_m :: "string \<Rightarrow> (nat \<times> string) list" where
  "match_m s =
     two (\<lambda>c. c = CHR ''1'') (\<lambda>c. c \<in> set ''012'') s @
     two (\<lambda>c. c = CHR ''0'') (\<lambda>c. c \<in> set ''123456789'') s @
     one (\<lambda>c. c \<in> set ''123456789'') s"

definition match_d :: "string \<Rightarrow> (nat \<times> string) list" where
  "match_d s =
     two (\<lambda>c. c = CHR ''3'') (\<lambda>c. c \<in> set ''01'') s @
     two (\<lambda>c. c \<in> set ''12'') is_digit s @
     two (\<lambda>c. c = CHR ''0'') (\<lambda>c. c \<in> set ''123456789'') s @
     one (\<lambda>c. c \<in> set ''123456789'') s @
     space_one (\<lambda>c. c \<in> set ''123456789'') s"

definition leap :: "nat \<Rightarrow> bool" where
  "leap y = (y mod 4 = 0 \<and> (y mod 100 \<noteq> 0 \<or> y mod 400 = 0))"

definition days_in_month :: "nat \<Rightarrow> nat \<Rightarrow> nat" where
  "days_in_month y m =
     (if m = 2 then (if leap y then 29 else 28)
      else if m \<in> {4, 6, 9, 11} then 30 else 31)"

text \<open>The constructor \<open>date(y, m, d)\<close>, which rejects what is not a calendar date.\<close>

definition make_date :: "nat \<Rightarrow> nat \<Rightarrow> nat \<Rightarrow> py_error + date" where
  "make_date y m d =
     (if 1 \<le> y \<and> y \<le> 9999 \<and> 1 \<le> m \<and> m \<le> 12 \<and> 1 \<le> d \<and> d \<le> days_in_month y m
      then Inr (y, m, d) else Inl ValueError)"

definition strptime_Ymd :: "string \<Rightarrow> py_error + date" where
  "strptime_Ymd s =
     (case s of
        y1 # y2 # y3 # y4 # r \<Rightarrow>
          if list_all is_digit [y1, y2, y3, y4] then
            (case concat (map (\<lambda>(m, r'). map (\<lambda>(d, r''). (m, d, r'')) (match_d r')) (match_m r)) of
               [] \<Rightarrow> Inl ValueError
             | (m, d, r'') # _ \<Rightarrow>
                 if r'' \<noteq> [] then Inl ValueError
                 else make_date (1000 * digit y1 + 100 * digit y2 + 10 * digit y3 + digit y4) m d)
          else Inl ValueError
      | _ \<Rightarrow> Inl ValueError)"

subsection \<open>iter\_youtube\_days (s3.py)\<close>

text \<open>
  The loop of the generator, as \<open>list(iter_youtube_days(zip_path))\<close> runs it: the first
  exception ends it. The documents are handed on as they are parsed.
\<close>

fun iter_days_loop :: "(string \<times> 'd option) list \<Rightarrow> string list \<Rightarrow> py_error + (date \<times> 'd) list" where
  "iter_days_loop members [] = Inr []"
| "iter_days_loop members (name # json_files) =
     (let base = basename name;
          date_str = first_field base
      in case strptime_Ymd date_str of
           Inl e \<Rightarrow> Inl e
         | Inr date \<Rightarrow>
             (case zip_read members name of
                Inl e \<Rightarrow> Inl e
              | Inr data \<Rightarrow>
                  (case iter_days_loop members json_files of
                     Inl e \<Rightarrow> Inl e
                   | Inr days \<Rightarrow> Inr ((date, data) # days))))"

definition iter_youtube_days :: "'d filesystem \<Rightarrow> string \<Rightarrow> py_error + (date \<times> 'd) list" where
  "iter_youtube_days fs zip_path =
     (case fs zip_path of
        None \<Rightarrow> Inl FileNotFoundError
      | Some (PlainFile _) \<Rightarrow> Inl BadZipFile
      | Some (ZipArchive members) \<Rightarrow>
          iter_days_loop members
            (sort (filter (\<lambda>name. endswith name ''.json'') (map fst members))))"

subsection \<open>load\_youtube\_from\_zip (s1.py)\<close>

text \<open>\<open>x.get(key, default)\<close>: only dictionaries have the method.\<close>

definition dict_get :: "json \<Rightarrow> string \<Rightarrow> json \<Rightarrow> py_error + json" where
  "dict_get x key dflt =
     (case x of
        JDict kvs \<Rightarrow> Inr (case map_of kvs key of None \<Rightarrow> dflt | Some v \<Rightarrow> v)
      | _ \<Rightarrow> Inl AttributeError)"

text \<open>\<open>isinstance(x, dict) and key in x\<close>, giving \<open>x[key]\<close> when it holds.\<close>

definition dict_with :: "json \<Rightarrow> string \<Rightarrow> json option" where
  "dict_with x key = (case x of JDict kvs \<Rightarrow> map_of kvs key | _ \<Rightarrow> None)"

text \<open>
  \<open>int(s)\<close> on a string: the white space U+0085 and U+00A0 is first turned into blanks,
  then the white space of C around the number is dropped (codes 9 to 13 and 32), a sign
  may lead, and the digits may be grouped by single underscores.
\<close>

definition space_to_blank :: "char \<Rightarrow> char" where
  "space_to_blank c = (if c = CHR 0x85 \<or> c = CHR 0xA0 then CHR 0x20 else c)"

definition is_c_space :: "char \<Rightarrow> bool" where
  "is_c_space c = (c \<in> set [CHR 0x09, CHR 0x0A, CHR 0x0B, CHR 0x0C, CHR 0x0D, CHR 0x20])"

fun digits_value :: "nat \<Rightarrow> string \<Rightarrow> nat option" where
  "digits_value acc [] = Some acc"
| "digits_value acc [c] = (if is_digit c then Some (10 * acc + digit c) else None)"
| "digits_value acc (c # d # cs) =
     (if is_digit c then digits_value (10 * acc + digit c) (d # cs)
      else if c = CHR ''_'' \<and> is_digit d then digits_value (10 * acc + digit d) cs
      else None)"

definition unsigned_value :: "string \<Rightarrow> nat option" where
  "unsigned_value s =
     (case s of [] \<Rightarrow> None | c # cs \<Rightarrow> if is_digit c then digits_value (digit c) cs else None)"

definition int_of_str :: "string \<Rightarrow> int option" where
  "int_of_str s =
     (case rev (dropWhile is_c_space (rev (dropWhile is_c_space (map space_to_blank s)))) of
        [] \<Rightarrow> None
      | c # cs \<Rightarrow>
          if c = CHR ''-'' then map_option (\<lambda>n. - int n) (unsigned_value cs)
          else if c = CHR ''+'' then map_option int (unsigned_value cs)
          else map_option int (unsigned_value (c # cs)))"

text \<open>\<open>int(x)\<close> on a parsed JSON value.\<close>

definition py_int :: "json \<Rightarrow> py_error + int" where
  "py_int x =
     (case x of
        JInt n \<Rightarrow> Inr n
      | JBool b \<Rightarrow> Inr (if b then 1 else 0)
      | JStr s \<Rightarrow> (case int_of_str s of None \<Rightarrow> Inl ValueError | Some n \<Rightarrow> Inr n)
      | _ \<Rightarrow> Inl TypeError)"

record row =
  r_date :: "date option"
  r_video_id :: json
  r_title :: json
  r_likes :: int
  r_dislikes :: int
  r_diff :: int

text \<open>The date of a member, from its file name; \<open>None\<close> when there is none to be had.\<close>

definition filename_date :: "string \<Rightarrow> date option" where
  "filename_date name =
     (let filename = basename name;
          date_part = first_field filename
      in if isdigit date_part \<and> length date_part = 8 then
           (case strptime_Ymd date_part of Inl e \<Rightarrow> None | Inr date \<Rightarrow> Some date)
         else None)"

text \<open>The video id of an item that is a dictionary.\<close>

definition extract_video_id :: "(string \<times> json) list \<Rightarrow> json" where
  "extract_video_id item =
     (let raw_id = (case map_of item ''id'' of None \<Rightarrow> JNull | Some v \<Rightarrow> v)
      in case dict_with raw_id ''videoId'' of
           Some v \<Rightarrow> v
         | None \<Rightarrow>
             (case map_of item ''resourceId'' of
                None \<Rightarrow> raw_id
              | Some res \<Rightarrow> (case dict_with res ''videoId'' of Some v \<Rightarrow> v | None \<Rightarrow> raw_id)))"

text \<open>The body of \<open>for item in data\<close>: the row of one item.\<close>

definition item_row :: "date option \<Rightarrow> json \<Rightarrow> py_error + row" where
  "item_row date item =
     (case item of
        JDict kvs \<Rightarrow>
          (let video_id = extract_video_id kvs;
               snippet = (case map_of kvs ''snippet'' of None \<Rightarrow> JDict [] | Some v \<Rightarrow> v)
           in case dict_get snippet ''title'' (JStr ''Unknown title'') of
                Inl e \<Rightarrow> Inl e
              | Inr title \<Rightarrow>
                  (let stats = (case map_of kvs ''statistics'' of None \<Rightarrow> JDict [] | Some v \<Rightarrow> v)
                   in case dict_get stats ''likeCount'' (JInt 0) of
                        Inl e \<Rightarrow> Inl e
                      | Inr lc \<Rightarrow>
                          (case py_int lc of
                             Inl e \<Rightarrow> Inl e
                           | Inr likes \<Rightarrow>
                               (case dict_get stats ''dislikeCount'' (JInt 0) of
                                  Inl e \<Rightarrow> Inl e
                                | Inr dc \<Rightarrow>
                                    (case py_int dc of
                                       Inl e \<Rightarrow> Inl e
                                     | Inr dislikes \<Rightarrow>
                                         Inr \<lparr> r_date = date, r_video_id = video_id,
                                               r_title = title, r_likes = likes,
                                               r_dislikes = dislikes,
                                               r_diff = likes - dislikes \<rparr>)))))
      | _ \<Rightarrow> Inl AttributeError)"

fun items_loop :: "date option \<Rightarrow> json list \<Rightarrow> row list \<Rightarrow> py_error + row list" where
  "items_loop date [] rows = Inr rows"
| "items_loop date (item # data) rows =
     (case item_row date item of
        Inl e \<Rightarrow> Inl e
      | Inr r \<Rightarrow> items_loop date data (rows @ [r]))"

text \<open>The loop \<open>for name in json_files\<close>.\<close>

fun files_loop :: "(string \<times> json option) list \<Rightarrow> string list \<Rightarrow> row list \<Rightarrow> py_error + row list" where
  "files_loop members [] rows = Inr rows"
| "files_loop members (name # json_files) rows =
     (let date = filename_date name
      in case zip_read members name of
           Inl e \<Rightarrow> Inl e
         | Inr data \<Rightarrow>
             (case data of
                JList entries \<Rightarrow>
                  (case items_loop date entries rows of
                     Inl e \<Rightarrow> Inl e
                   | Inr rows' \<Rightarrow> files_loop members json_files rows')
              | _ \<Rightarrow> Inl TypeError))"

definition json_members :: "(string \<times> 'd option) list \<Rightarrow> string list" where
  "json_members members = filter (\<lambda>name. endswith (lower name) ''.json'') (map fst members)"

definition load_youtube_from_zip :: "json filesystem \<Rightarrow> string \<Rightarrow> py_error + row list" where
  "load_youtube_from_zip fs zip_path =
     (case fs zip_path of
        None \<Rightarrow> Inl FileNotFoundError
      | Some (PlainFile _) \<Rightarrow> Inl BadZipFile
      | Some (ZipArchive members) \<Rightarrow>
          (let json_files = json_members members
           in if json_files = [] then Inl FileNotFoundError
              else files_loop members json_files []))"

subsection \<open>load\_view\_counts (a5\_analyze.py)\<close>





subsection \<open>Notions used to state the properties of the loaders\<close>

text \<open>
  A well-formed record of \<open>load_youtube_from_zip\<close>: an object whose \<open>snippet\<close> and
  \<open>statistics\<close>, when present, are objects, and whose like and dislike counts, when
  present, are values \<open>int\<close> accepts.
\<close>

definition count_ok :: "json \<Rightarrow> string \<Rightarrow> bool" where
  "count_ok stats key =
     (case stats of
        JDict kvs \<Rightarrow>
          (case map_of kvs key of
             None \<Rightarrow> True
           | Some v \<Rightarrow> (case py_int v of Inl e \<Rightarrow> False | Inr n \<Rightarrow> True))
      | _ \<Rightarrow> False)"

definition is_dict :: "json \<Rightarrow> bool" where
  "is_dict x = (case x of JDict kvs \<Rightarrow> True | _ \<Rightarrow> False)"

definition is_list :: "json \<Rightarrow> bool" where
  "is_list x = (case x of JList xs \<Rightarrow> True | _ \<Rightarrow> False)"

definition well_formed_item :: "json \<Rightarrow> bool" where
  "well_formed_item item =
     (case item of
        JDict kvs \<Rightarrow>
          (case map_of kvs ''snippet'' of None \<Rightarrow> True | Some s \<Rightarrow> is_dict s) \<and>
          (case map_of kvs ''statistics'' of
             None \<Rightarrow> True
           | Some st \<Rightarrow> count_ok st ''likeCount'' \<and> count_ok st ''dislikeCount'')
      | _ \<Rightarrow> False)"

text \<open>The records of an archive member whose document is a list; none otherwise.\<close>

definition member_items :: "(string \<times> json option) list \<Rightarrow> string \<Rightarrow> json list" where
  "member_items members name =
     (case zip_read members name of
        Inl e \<Rightarrow> []
      | Inr data \<Rightarrow> (case data of JList entries \<Rightarrow> entries | _ \<Rightarrow> []))"

definition list_member :: "(string \<times> json option) list \<Rightarrow> string \<Rightarrow> bool" where
  "list_member members name =
     (case zip_read members name of Inl e \<Rightarrow> False | Inr data \<Rightarrow> is_list data)"

definition well_formed_member :: "(string \<times> json option) list \<Rightarrow> string \<Rightarrow> bool" where
  "well_formed_member members name =
     (list_member members name \<and> list_all well_formed_item (member_items members name))"

text \<open>
  A member name of the form \<open>dir\<close>, eight digits, an underscore and a rest without
  slash, where \<open>dir\<close> is empty or ends with a slash.
\<close>

definition dated_name :: "string \<Rightarrow> string \<Rightarrow> bool" where
  "dated_name dir name =
     (let r = drop (length dir) name
      in take (length dir) name = dir \<and>
         (dir = [] \<or> last dir = CHR ''/'') \<and>
         9 \<le> length r \<and> list_all is_digit (take 8 r) \<and> r ! 8 = CHR ''_'' \<and>
         list_all (\<lambda>c. c \<noteq> CHR ''/'') (drop 9 r))"

text \<open>The number a string of digits denotes.\<close>

fun dec :: "string \<Rightarrow> nat" where
  "dec [] = 0"
| "dec (c # cs) = digit c * 10 ^ length cs + dec cs"

subsection \<open>Example archives\<close>

text \<open>
  The archive of the specification's end-to-end example: three documents dated
  20150101, 20150102 and 20150103, of two entities each.
\<close>

definition two_entities :: json where
  "two_entities = JList [JDict [(''id'', JStr ''v1'')], JDict [(''id'', JStr ''v2'')]]"

definition three_day_archive :: "(string \<times> json option) list" where
  "three_day_archive =
     [(''20150101_1800_data.json'', Some two_entities),
      (''20150102_1800_data.json'', Some two_entities),
      (''20150103_1800_data.json'', Some two_entities)]"

text \<open>The same documents stored in another order, the second with a date of no calendar.\<close>

definition shuffled_archive :: "(string \<times> json option) list" where
  "shuffled_archive =
     [(''20150103_1800_data.json'', Some two_entities),
      (''20150230_1800_data.json'', Some two_entities),
      (''20150101_1800_data.json'', Some two_entities)]"





section \<open>The mapping from Spotify tracks to YouTube videos (s3.py)\<close>

subsection \<open>Documents of the two archives\<close>

text \<open>
  One entry of \<open>payload["tracks"]["items"]\<close> of a Spotify chart: the \<open>id\<close> and \<open>name\<close> of
  its \<open>track\<close> and the \<open>name\<close> of each of the track's \<open>artists\<close>.
\<close>

record chart_item =
  ci_id :: string
  ci_name :: string
  ci_artists :: "string list"

text \<open>
  A parsed document of either archive: a list of YouTube video objects, or a Spotify
  chart, an object whose \<open>tracks.items\<close> is a list of entries.
\<close>

datatype document =
    VideoList "video list"
  | Chart "chart_item list"

definition YOUTUBE_ZIP :: string where
  "YOUTUBE_ZIP = ''data/youtube_top100.zip''"

definition SPOTIFY_ZIP :: string where
  "SPOTIFY_ZIP = ''data/spotify_top100.zip''"

subsection \<open>iter\_spotify\_days\<close>

text \<open>\<open>_spotify_json_files\<close>: the sorted names of the JSON members.\<close>

definition spotify_json_files :: "document filesystem \<Rightarrow> string \<Rightarrow> py_error + string list" where
  "spotify_json_files fs zip_path =
     (case fs zip_path of
        None \<Rightarrow> Inl FileNotFoundError
      | Some (PlainFile _) \<Rightarrow> Inl BadZipFile
      | Some (ZipArchive members) \<Rightarrow>
          Inr (sort (filter (\<lambda>n. endswith n ''.json'') (map fst members))))"

text \<open>
  \<open>_pick_spotify_file_for_date\<close>: of the files whose base name holds the date string,
  the first with \<open>_1800_\<close> in its name, else the least.
\<close>

definition pick_spotify_file_for_date :: "string list \<Rightarrow> string \<Rightarrow> py_error + string" where
  "pick_spotify_file_for_date files date_str =
     (let candidates = filter (\<lambda>f. str_in date_str (basename f)) files
      in if candidates = [] then Inl FileNotFoundError
         else (case find (\<lambda>c. str_in ''_1800_'' c) candidates of
                 Some c \<Rightarrow> Inr c
               | None \<Rightarrow>
                   (case sort candidates of [] \<Rightarrow> Inl IndexError | c # cs \<Rightarrow> Inr c)))"

text \<open>The track dictionaries of one chart, with positions from 1.\<close>

definition chart_tracks :: "chart_item list \<Rightarrow> track list" where
  "chart_tracks entries =
     map (\<lambda>(pos, item). \<lparr> sp_id = ci_id item, sp_name = ci_name item,
                            sp_artists = join '', '' (ci_artists item), sp_position = pos \<rparr>)
         (enumerate 1 entries)"

text \<open>
  The loop over the date strings, as \<open>list(iter_spotify_days(zip_path))\<close> runs it. A
  document that is a list has no key \<open>"tracks"\<close>: subscripting it raises \<open>TypeError\<close>.
\<close>

fun spotify_days_loop ::
    "(string \<times> document option) list \<Rightarrow> string list \<Rightarrow> string list \<Rightarrow> py_error + (date \<times> track list) list" where
  "spotify_days_loop members files [] = Inr []"
| "spotify_days_loop members files (date_str # dates) =
     (case pick_spotify_file_for_date files date_str of
        Inl e \<Rightarrow> Inl e
      | Inr fname \<Rightarrow>
          (case zip_read members fname of
             Inl e \<Rightarrow> Inl e
           | Inr payload \<Rightarrow>
               (case payload of
                  VideoList vs \<Rightarrow> Inl TypeError
                | Chart entries \<Rightarrow>
                    (case strptime_Ymd date_str of
                       Inl e \<Rightarrow> Inl e
                     | Inr date \<Rightarrow>
                         (case spotify_days_loop members files dates of
                            Inl e \<Rightarrow> Inl e
                          | Inr days \<Rightarrow> Inr ((date, chart_tracks entries) # days))))))"

definition iter_spotify_days :: "document filesystem \<Rightarrow> string \<Rightarrow> py_error + (date \<times> track list) list" where
  "iter_spotify_days fs zip_path =
     (case spotify_json_files fs zip_path of
        Inl e \<Rightarrow> Inl e
      | Inr files \<Rightarrow>
          (case fs zip_path of
             None \<Rightarrow> Inl FileNotFoundError
           | Some (PlainFile _) \<Rightarrow> Inl BadZipFile
           | Some (ZipArchive members) \<Rightarrow>
               spotify_days_loop members files
                 (sort (remdups (map (\<lambda>f. first_field (basename f)) files)))))"

subsection \<open>\_build\_spotify\_youtube\_mapping\<close>

text \<open>
  The mapping of the tracks of the reference day. When the reference day's YouTube
  document is a chart object, \<open>for v in yt_videos\<close> runs over its keys, and subscripting
  the first key raises \<open>TypeError\<close> for the first track.
\<close>

definition reference_mapping :: "track list \<Rightarrow> document \<Rightarrow> py_error + (string \<rightharpoonup> string)" where
  "reference_mapping sp_tracks yt_videos =
     (case yt_videos of
        VideoList vs \<Rightarrow> Inr (mapping_loop sp_tracks vs Map.empty)
      | Chart entries \<Rightarrow> if sp_tracks = [] then Inr Map.empty else Inl TypeError)"

text \<open>
  The function reads both archives first, by \<open>list(iter_youtube_days(YOUTUBE_ZIP))\<close> and
  \<open>list(iter_spotify_days(SPOTIFY_ZIP))\<close>; an exception of either ends it.
\<close>

definition build_spotify_youtube_mapping :: "document filesystem \<Rightarrow> py_error + (string \<rightharpoonup> string)" where
  "build_spotify_youtube_mapping fs =
     (case iter_youtube_days fs YOUTUBE_ZIP of
        Inl e \<Rightarrow> Inl e
      | Inr yt_days \<Rightarrow>
          (case iter_spotify_days fs SPOTIFY_ZIP of
             Inl e \<Rightarrow> Inl e
           | Inr sp_days \<Rightarrow>
               (let yt_by_date = dict_of yt_days;
                    sp_by_date = dict_of sp_days;
                    common = common_dates yt_days sp_days
                in case common of
                     [] \<Rightarrow> Inr Map.empty
                   | ref_date # _ \<Rightarrow>
                       (case lookup yt_by_date ref_date of
                          Inl e \<Rightarrow> Inl e
                        | Inr yt_videos \<Rightarrow>
                            (case lookup sp_by_date ref_date of
                               Inl e \<Rightarrow> Inl e
                             | Inr sp_tracks \<Rightarrow> reference_mapping sp_tracks yt_videos)))))"

subsection \<open>Example archives of the two data sets\<close>

definition hello_video :: video where
  "hello_video = \<lparr>yt_id = ''b1'', yt_title = ''Adele - Hello'', yt_viewCount = 7\<rparr>"

definition hello_chart :: document where
  "hello_chart = Chart [\<lparr>ci_id = ''a1'', ci_name = ''Hello'', ci_artists = [''Adele'']\<rparr>]"

text \<open>Two archives without a common date.\<close>

definition disjoint_fs :: "document filesystem" where
  "disjoint_fs =
     [YOUTUBE_ZIP \<mapsto> ZipArchive [(''20151109_1800_data.json'', Some (VideoList [hello_video]))],
      SPOTIFY_ZIP \<mapsto> ZipArchive [(''20151110_1800_spotify.json'', Some hello_chart)]]"

text \<open>The same, with one more JSON member in the YouTube archive whose name has no date.\<close>

definition stray_member_fs :: "document filesystem" where
  "stray_member_fs =
     [YOUTUBE_ZIP \<mapsto> ZipArchive [(''20151109_1800_data.json'', Some (VideoList [hello_video])),
                                    (''notes.json'', Some (VideoList []))],
      SPOTIFY_ZIP \<mapsto> ZipArchive [(''20151110_1800_spotify.json'', Some hello_chart)]]"

text \<open>Two archives with the common date 2015-11-09.\<close>

definition common_day_fs :: "document filesystem" where
  "common_day_fs =
     [YOUTUBE_ZIP \<mapsto> ZipArchive [(''20151109_1800_data.json'', Some (VideoList [hello_video]))],
      SPOTIFY_ZIP \<mapsto> ZipArchive [(''20151109_1800_spotify.json'', Some hello_chart)]]"

text \<open>A member of an archive whose content is a chart.\<close>

definition chart_member :: "(string \<times> document option) list \<Rightarrow> string \<Rightarrow> bool" where
  "chart_member members name =
     (case zip_read members name of
        Inl e \<Rightarrow> False
      | Inr payload \<Rightarrow> (case payload of Chart entries \<Rightarrow> True | VideoList vs \<Rightarrow> False))"

text \<open>The YouTube archive alone, the Spotify archive missing.\<close>

definition youtube_only_fs :: "document filesystem" where
  "youtube_only_fs =
     [YOUTUBE_ZIP \<mapsto> ZipArchive [(''20151109_1800_data.json'', Some (VideoList [hello_video]))]]"

section \<open>Properties of the collector\<close>

lemma add_items_invariant:
  "distinct (fst st) \<Longrightarrow> set (fst st) = snd st \<Longrightarrow>
   distinct (fst (add_items vs st)) \<and> set (fst (add_items vs st)) = snd (add_items vs st)"
proof (induction vs st rule: add_items.induct)
  case (1 video_ids seen_ids)
  then show ?case by simp
next
  case (2 vid rest video_ids seen_ids)
  then show ?case by auto
qed

lemma search_loop_distinct:
  "search_loop pages st = Some ids \<Longrightarrow> distinct (fst st) \<Longrightarrow> set (fst st) = snd st \<Longrightarrow> distinct ids"
proof (induction pages arbitrary: st)
  case Nil
  then show ?case by (cases st) (auto split: if_splits)
next
  case (Cons response pages)
  obtain video_ids seen_ids where st: "st = (video_ids, seen_ids)" by (cases st)
  show ?case
  proof (cases "length video_ids < TARGET_VIDEO_COUNT")
    case False
    with Cons.prems st show ?thesis by simp
  next
    case True
    let ?st' = "add_items (resp_items response) st"
    have inv: "distinct (fst ?st') \<and> set (fst ?st') = snd ?st'"
      using add_items_invariant Cons.prems(2,3) by blast
    show ?thesis
    proof (cases "not_token (nextPageToken response)")
      case True
      with Cons.prems(1) st \<open>length video_ids < TARGET_VIDEO_COUNT\<close> inv
      show ?thesis by (simp add: Let_def)
    next
      case False
      with Cons.prems(1) st \<open>length video_ids < TARGET_VIDEO_COUNT\<close>
      have "search_loop pages ?st' = Some ids" by (simp add: Let_def)
      then show ?thesis using Cons.IH inv by blast
    qed
  qed
qed

lemma search_loop_returns:
  "pages \<noteq> [] \<Longrightarrow> not_token (nextPageToken (last pages)) \<Longrightarrow> \<exists>ids. search_loop pages st = Some ids"
proof (induction pages arbitrary: st)
  case Nil
  then show ?case by simp
next
  case (Cons response pages)
  obtain video_ids seen_ids where st: "st = (video_ids, seen_ids)" by (cases st)
  show ?case
  proof (cases "pages = []")
    case True
    with Cons.prems st show ?thesis by (simp add: Let_def)
  next
    case False
    with Cons.prems have "not_token (nextPageToken (last pages))" by simp
    with Cons.IH False have "\<And>st'. \<exists>ids. search_loop pages st' = Some ids" by blast
    with st show ?thesis by (simp add: Let_def)
  qed
qed

text \<open>
  C9. Whatever pages the search service serves, the list returned by the id-gathering
  step holds every video id at most once. The step does return whenever the last page of
  the sequence carries no next-page token.
\<close>

theorem search_video_ids_distinct:
  "(search_video_ids pages = Some ids \<longrightarrow> distinct ids) \<and>
   (pages \<noteq> [] \<and> not_token (nextPageToken (last pages)) \<longrightarrow> (\<exists>r. search_video_ids pages = Some r))"
  unfolding search_video_ids_def
  using search_loop_distinct [of pages "([], {})" ids] search_loop_returns [of pages "([], {})"]
  by auto

theorem search_video_ids_distinct_witness:
  "not_token (nextPageToken (last
     [\<lparr> resp_items = [''a'', ''b'', ''a''], nextPageToken = Some ''t1'' \<rparr>,
      \<lparr> resp_items = [''b'', ''c'', ''c''], nextPageToken = None \<rparr>])) \<and>
   (\<exists>r. search_video_ids
     [\<lparr> resp_items = [''a'', ''b'', ''a''], nextPageToken = Some ''t1'' \<rparr>,
      \<lparr> resp_items = [''b'', ''c'', ''c''], nextPageToken = None \<rparr>] = Some r) \<and>
   search_video_ids
     [\<lparr> resp_items = [''a'', ''b'', ''a''], nextPageToken = Some ''t1'' \<rparr>,
      \<lparr> resp_items = [''b'', ''c'', ''c''], nextPageToken = None \<rparr>] = Some [''a'', ''b'', ''c''] \<and>
   distinct [''a'', ''b'', ''c'']"
proof -
  let ?pages = "[\<lparr> resp_items = [''a'', ''b'', ''a''], nextPageToken = Some ''t1'' \<rparr>,
      \<lparr> resp_items = [''b'', ''c'', ''c''], nextPageToken = None \<rparr>]"
  have r: "search_video_ids ?pages = Some [''a'', ''b'', ''c'']"
    by (simp add: search_video_ids_def TARGET_VIDEO_COUNT_def not_token_def Let_def)
  have n: "?pages \<noteq> []" by simp
  have t: "not_token (nextPageToken (last ?pages))" by (simp add: not_token_def)
  have e: "\<exists>r. search_video_ids ?pages = Some r"
    by (rule search_video_ids_distinct [of ?pages, THEN conjunct2, THEN mp]) (intro conjI n t)
  have d: "distinct [''a'', ''b'', ''c'']"
    by (rule search_video_ids_distinct [of ?pages "[''a'', ''b'', ''c'']", THEN conjunct1, THEN mp])
      (rule r)
  show ?thesis by (intro conjI t e r d)
qed

text \<open>
  C10. The dataset object that \<open>save_dataset\<close> writes to \<open>OUTPUT_PATH\<close> has
  \<open>videoCount\<close> equal to the length of its \<open>items\<close>, and its \<open>items\<close> are the given
  records in the given order.
\<close>

theorem save_dataset_count_items:
  "\<exists>ds. save_dataset utcnow videos fs OUTPUT_PATH = Some ds \<and>
        videoCount ds = int (length (items ds)) \<and> items ds = videos"
  by (simp add: save_dataset_def Let_def)


section \<open>Properties of the matcher and of rank assignment\<close>

lemma first_pass_find:
  "first_pass tn toks vs =
     map_option yt_id (find (\<lambda>v. str_in tn (lower (yt_title v)) \<and> list_ex (\<lambda>a. str_in a (lower (yt_title v))) toks) vs)"
  by (induction vs) (simp_all add: Let_def)

lemma second_pass_find:
  "second_pass tn vs = map_option yt_id (find (\<lambda>v. str_in tn (lower (yt_title v))) vs)"
  by (induction vs) (simp_all add: Let_def)

lemma best_yt_id_find:
  "best_yt_id t vs =
     (case find (strict_match t) vs of
        Some v \<Rightarrow> Some (yt_id v)
      | None \<Rightarrow> map_option yt_id (find (relaxed_match t) vs))"
proof -
  have s: "strict_match t = (\<lambda>v. str_in (lower (sp_name t)) (lower (yt_title v)) \<and>
      list_ex (\<lambda>a. str_in a (lower (yt_title v)))
        (map (\<lambda>a. lower (strip a)) (split CHR '','' (sp_artists t))))"
    by (rule ext) (simp add: strict_match_def)
  have r: "relaxed_match t = (\<lambda>v. str_in (lower (sp_name t)) (lower (yt_title v)))"
    by (rule ext) (simp add: relaxed_match_def)
  show ?thesis
    unfolding best_yt_id_def Let_def first_pass_find second_pass_find s r
    by (simp split: option.splits)
qed

lemma find_first_index:
  "i < length xs \<Longrightarrow> P (xs ! i) \<Longrightarrow> (\<forall>j<i. \<not> P (xs ! j)) \<Longrightarrow> find P xs = Some (xs ! i)"
  by (auto simp: find_Some_iff)

lemma find_no_index:
  "(\<forall>j<length xs. \<not> P (xs ! j)) \<Longrightarrow> find P xs = None"
  by (auto simp: find_None_iff in_set_conv_nth)

lemma mapping_loop_lookup:
  "distinct (map sp_id ts) \<Longrightarrow>
   mapping_loop ts vs m k =
     (case find (\<lambda>t. sp_id t = k) ts of
        None \<Rightarrow> m k
      | Some t \<Rightarrow> (case best_yt_id t vs of None \<Rightarrow> m k | Some y \<Rightarrow> Some y))"
proof (induction ts arbitrary: m)
  case Nil
  then show ?case by simp
next
  case (Cons t ts)
  from Cons.prems have d: "distinct (map sp_id ts)" by simp
  from Cons.prems have "sp_id t \<notin> sp_id ` set ts" by simp
  then have n: "\<forall>x\<in>set ts. sp_id x \<noteq> sp_id t" by (metis image_eqI)
  show ?case
  proof (cases "sp_id t = k")
    case True
    with n have "find (\<lambda>t. sp_id t = k) ts = None" by (auto simp: find_None_iff)
    with True Cons.IH [OF d] show ?thesis by (simp split: option.splits)
  next
    case False
    with Cons.IH [OF d] show ?thesis by (simp split: option.splits)
  qed
qed

lemma mapping_loop_track:
  assumes "distinct (map sp_id ts)" "t \<in> set ts"
  shows "mapping_loop ts vs Map.empty (sp_id t) = best_yt_id t vs"
proof -
  from assms(2) obtain i where i: "i < length ts" "ts ! i = t" by (auto simp: in_set_conv_nth)
  have "\<forall>j<i. sp_id (ts ! j) \<noteq> sp_id t"
  proof (intro allI impI)
    fix j assume "j < i"
    with i have "j < length (map sp_id ts)" "i < length (map sp_id ts)" "j \<noteq> i" by simp_all
    with assms(1) have "map sp_id ts ! j \<noteq> map sp_id ts ! i"
      using nth_eq_iff_index_eq by blast
    with i \<open>j < i\<close> show "sp_id (ts ! j) \<noteq> sp_id t" by simp
  qed
  with i have "find (\<lambda>t'. sp_id t' = sp_id t) ts = Some t"
    using find_first_index [of i ts "\<lambda>t'. sp_id t' = sp_id t"] by simp
  with mapping_loop_lookup [OF assms(1), of vs Map.empty "sp_id t"] show ?thesis
    by (simp split: option.splits)
qed

lemma split_not_Nil: "split sep s \<noteq> []"
  by (induction s) (auto split: list.splits)

lemma join_Cons_char: "ws \<noteq> [] \<Longrightarrow> join sep ((c # hd ws) # tl ws) = c # join sep ws"
proof (cases ws)
  case Nil
  moreover assume "ws \<noteq> []"
  ultimately show ?thesis by simp
next
  case (Cons w ws')
  then show ?thesis by (cases ws') simp_all
qed

lemma join_split: "join [sep] (split sep s) = s"
proof (induction s)
  case Nil
  then show ?case by simp
next
  case (Cons c s)
  show ?case
  proof (cases "c = sep")
    case True
    obtain w ws where "split sep s = w # ws" using split_not_Nil [of sep s] by (cases "split sep s") auto
    with True Cons show ?thesis by simp
  next
    case False
    obtain w ws where w: "split sep s = w # ws" using split_not_Nil [of sep s] by (cases "split sep s") auto
    with False have "split sep (c # s) = (c # w) # ws" by simp
    moreover have "join [sep] ((c # w) # ws) = c # join [sep] (w # ws)"
      using join_Cons_char [of "w # ws" "[sep]" c] by simp
    ultimately show ?thesis using Cons w by simp
  qed
qed

lemma split_pieces: "w \<in> set (split sep s) \<Longrightarrow> sep \<notin> set w"
proof (induction s arbitrary: w)
  case Nil
  then show ?case by simp
next
  case (Cons c s)
  obtain v vs where v: "split sep s = v # vs" using split_not_Nil [of sep s] by (cases "split sep s") auto
  show ?case
  proof (cases "c = sep")
    case True
    with Cons.prems have "w = [] \<or> w \<in> set (split sep s)" by simp
    with Cons.IH show ?thesis by auto
  next
    case False
    with Cons.prems v have "w = c # v \<or> w \<in> set vs" by simp
    moreover have "sep \<notin> set v" using Cons.IH [of v] v by simp
    moreover have "\<And>u. u \<in> set vs \<Longrightarrow> sep \<notin> set u" using Cons.IH v by simp
    ultimately show ?thesis using False by auto
  qed
qed

lemma strip_decomp:
  "\<exists>l r. s = l @ strip s @ r \<and> list_all is_space l \<and> list_all is_space r \<and>
         (strip s = [] \<or> (\<not> is_space (hd (strip s)) \<and> \<not> is_space (last (strip s))))"
proof -
  let ?l = "takeWhile is_space s" and ?m = "dropWhile is_space s"
  let ?r = "rev (takeWhile is_space (rev ?m))"
  have s: "s = ?l @ ?m" by simp
  have "rev (takeWhile is_space (rev ?m) @ dropWhile is_space (rev ?m)) = rev (rev ?m)"
    by (simp only: takeWhile_dropWhile_id)
  then have "rev (dropWhile is_space (rev ?m)) @ rev (takeWhile is_space (rev ?m)) = ?m"
    by (simp only: rev_append rev_rev_ident)
  then have m: "?m = strip s @ ?r" by (simp add: strip_def)
  have l: "list_all is_space ?l" by (simp add: list_all_iff) (meson set_takeWhileD)
  have r: "list_all is_space ?r" by (simp add: list_all_iff) (meson set_takeWhileD)
  have e: "strip s = [] \<or> (\<not> is_space (hd (strip s)) \<and> \<not> is_space (last (strip s)))"
  proof (cases "strip s = []")
    case True
    then show ?thesis by simp
  next
    case False
    then have d: "dropWhile is_space (rev ?m) \<noteq> []" by (simp add: strip_def)
    then have "\<not> is_space (hd (dropWhile is_space (rev ?m)))" by (rule hd_dropWhile)
    with d have la: "\<not> is_space (last (strip s))" by (simp add: strip_def last_rev)
    have "?m \<noteq> []"
    proof
      assume e: "?m = []"
      have "strip s = []" unfolding strip_def e by simp
      with False show False by simp
    qed
    then have "\<not> is_space (hd ?m)" by (rule hd_dropWhile)
    moreover from m False have "hd ?m = hd (strip s)" by (metis hd_append2)
    ultimately show ?thesis using la by simp
  qed
  from s m have "s = ?l @ strip s @ ?r" by simp
  with l r e show ?thesis by blast
qed

text \<open>
  C1. For a track \<open>t\<close> and the videos in their given order, the matcher takes the first
  video that passes the strict test (title contains the track name and one of the artist
  tokens, all lowercased); when no video passes it, the first video that passes the
  relaxed test (title contains the track name); and none when no video passes that
  either. With pairwise different track ids, the mapping holds exactly this choice under
  the track's id. The artist tokens are the pieces of the artist field between its
  commas (at least one piece), without the white space around them; lowercasing reaches the accented capitals.
  On the example of the specification the strict pass selects \<open>b1\<close>.
\<close>

theorem best_yt_id_first_match:
  "(i < length yt_videos \<and> strict_match t (yt_videos ! i) \<and> (\<forall>j<i. \<not> strict_match t (yt_videos ! j))
      \<longrightarrow> best_yt_id t yt_videos = Some (yt_id (yt_videos ! i))) \<and>
   ((\<forall>j<length yt_videos. \<not> strict_match t (yt_videos ! j)) \<and>
    i < length yt_videos \<and> relaxed_match t (yt_videos ! i) \<and> (\<forall>j<i. \<not> relaxed_match t (yt_videos ! j))
      \<longrightarrow> best_yt_id t yt_videos = Some (yt_id (yt_videos ! i))) \<and>
   ((\<forall>j<length yt_videos. \<not> relaxed_match t (yt_videos ! j)) \<longrightarrow> best_yt_id t yt_videos = None) \<and>
   (distinct (map sp_id sp_tracks) \<and> t \<in> set sp_tracks
      \<longrightarrow> mapping_loop sp_tracks yt_videos Map.empty (sp_id t) = best_yt_id t yt_videos) \<and>
   first_pass ''hello'' [''adele'']
     [\<lparr>yt_id = ''b1'', yt_title = ''Adele - Hello (Official Video)'', yt_viewCount = 0\<rparr>,
      \<lparr>yt_id = ''b2'', yt_title = ''Someone - Hello There'', yt_viewCount = 0\<rparr>] = Some ''b1'' \<and>
   best_yt_id \<lparr>sp_id = ''a1'', sp_name = ''hello'', sp_artists = ''adele'', sp_position = 1\<rparr>
     [\<lparr>yt_id = ''b1'', yt_title = ''Adele - Hello (Official Video)'', yt_viewCount = 0\<rparr>,
      \<lparr>yt_id = ''b2'', yt_title = ''Someone - Hello There'', yt_viewCount = 0\<rparr>] = Some ''b1'' \<and>
   join [sep] (split sep str) = str \<and>
   (\<forall>w\<in>set (split sep str). sep \<notin> set w) \<and>
   (\<exists>l r. str = l @ strip str @ r \<and> list_all is_space l \<and> list_all is_space r \<and>
          (strip str = [] \<or> (\<not> is_space (hd (strip str)) \<and> \<not> is_space (last (strip str))))) \<and>
   map (\<lambda>a. lower (strip a)) (split CHR '','' (''Mark Ronson,'' @ [CHR 0xA0] @ ''ADELE ,'')) =
     [''mark ronson'', ''adele'', ''''] \<and>
   best_yt_id
     \<lparr>sp_id = ''a4'', sp_name = ''Hello'', sp_artists = ''Mark Ronson,'' @ [CHR 0xA0] @ ''Adele'',
        sp_position = 4\<rparr>
     [\<lparr>yt_id = ''b2'', yt_title = ''Someone - Hello There'', yt_viewCount = 0\<rparr>,
      \<lparr>yt_id = ''b1'', yt_title = ''ADELE - Hello'', yt_viewCount = 0\<rparr>] = Some ''b1'' \<and>
   best_yt_id
     \<lparr>sp_id = ''a5'', sp_name = CHR 0xC9 # ''coute'', sp_artists = ''Adele'', sp_position = 5\<rparr>
     [\<lparr>yt_id = ''b2'', yt_title = ''Someone - Ecoute'', yt_viewCount = 0\<rparr>,
      \<lparr>yt_id = ''b1'', yt_title = ''ADELE - '' @ [CHR 0xE9] @ ''coute'', yt_viewCount = 0\<rparr>] = Some ''b1'' \<and>
   split sep str \<noteq> []"
proof (intro conjI impI)
  assume "i < length yt_videos \<and> strict_match t (yt_videos ! i) \<and> (\<forall>j<i. \<not> strict_match t (yt_videos ! j))"
  then have "find (strict_match t) yt_videos = Some (yt_videos ! i)"
    by (simp add: find_first_index)
  then show "best_yt_id t yt_videos = Some (yt_id (yt_videos ! i))"
    by (simp add: best_yt_id_find)
next
  assume a: "(\<forall>j<length yt_videos. \<not> strict_match t (yt_videos ! j)) \<and>
    i < length yt_videos \<and> relaxed_match t (yt_videos ! i) \<and> (\<forall>j<i. \<not> relaxed_match t (yt_videos ! j))"
  then have "find (strict_match t) yt_videos = None" by (simp add: find_no_index)
  moreover from a have "find (relaxed_match t) yt_videos = Some (yt_videos ! i)"
    by (simp add: find_first_index)
  ultimately show "best_yt_id t yt_videos = Some (yt_id (yt_videos ! i))"
    by (simp add: best_yt_id_find)
next
  assume a: "\<forall>j<length yt_videos. \<not> relaxed_match t (yt_videos ! j)"
  then have "find (relaxed_match t) yt_videos = None" by (simp add: find_no_index)
  moreover from a have "\<forall>j<length yt_videos. \<not> strict_match t (yt_videos ! j)"
    by (simp add: strict_match_def relaxed_match_def)
  then have "find (strict_match t) yt_videos = None" by (simp add: find_no_index)
  ultimately show "best_yt_id t yt_videos = None" by (simp add: best_yt_id_find)
next
  assume "distinct (map sp_id sp_tracks) \<and> t \<in> set sp_tracks"
  then show "mapping_loop sp_tracks yt_videos Map.empty (sp_id t) = best_yt_id t yt_videos"
    by (simp add: mapping_loop_track)
next
  show "first_pass ''hello'' [''adele'']
     [\<lparr>yt_id = ''b1'', yt_title = ''Adele - Hello (Official Video)'', yt_viewCount = 0\<rparr>,
      \<lparr>yt_id = ''b2'', yt_title = ''Someone - Hello There'', yt_viewCount = 0\<rparr>] = Some ''b1''"
    by code_simp
next
  show "best_yt_id \<lparr>sp_id = ''a1'', sp_name = ''hello'', sp_artists = ''adele'', sp_position = 1\<rparr>
     [\<lparr>yt_id = ''b1'', yt_title = ''Adele - Hello (Official Video)'', yt_viewCount = 0\<rparr>,
      \<lparr>yt_id = ''b2'', yt_title = ''Someone - Hello There'', yt_viewCount = 0\<rparr>] = Some ''b1''"
    by code_simp
next
  show "join [sep] (split sep str) = str" by (rule join_split)
next
  show "\<forall>w\<in>set (split sep str). sep \<notin> set w" using split_pieces by blast
next
  show "\<exists>l r. str = l @ strip str @ r \<and> list_all is_space l \<and> list_all is_space r \<and>
          (strip str = [] \<or> (\<not> is_space (hd (strip str)) \<and> \<not> is_space (last (strip str))))"
    by (rule strip_decomp)
next
  show "map (\<lambda>a. lower (strip a)) (split CHR '','' (''Mark Ronson,'' @ [CHR 0xA0] @ ''ADELE ,'')) =
     [''mark ronson'', ''adele'', '''']"
    by code_simp
next
  show "best_yt_id
     \<lparr>sp_id = ''a4'', sp_name = ''Hello'', sp_artists = ''Mark Ronson,'' @ [CHR 0xA0] @ ''Adele'',
        sp_position = 4\<rparr>
     [\<lparr>yt_id = ''b2'', yt_title = ''Someone - Hello There'', yt_viewCount = 0\<rparr>,
      \<lparr>yt_id = ''b1'', yt_title = ''ADELE - Hello'', yt_viewCount = 0\<rparr>] = Some ''b1''"
    by code_simp
next
  show "best_yt_id
     \<lparr>sp_id = ''a5'', sp_name = CHR 0xC9 # ''coute'', sp_artists = ''Adele'', sp_position = 5\<rparr>
     [\<lparr>yt_id = ''b2'', yt_title = ''Someone - Ecoute'', yt_viewCount = 0\<rparr>,
      \<lparr>yt_id = ''b1'', yt_title = ''ADELE - '' @ [CHR 0xE9] @ ''coute'', yt_viewCount = 0\<rparr>] = Some ''b1''"
    by code_simp
next
  show "split sep str \<noteq> []" by (rule split_not_Nil)
qed

theorem best_yt_id_first_match_witness:
  "strict_match \<lparr>sp_id = ''a1'', sp_name = ''Hello'', sp_artists = ''Mark Ronson, Adele'', sp_position = 1\<rparr>
     ([\<lparr>yt_id = ''b2'', yt_title = ''Someone - Hello There'', yt_viewCount = 0\<rparr>,
       \<lparr>yt_id = ''b1'', yt_title = ''Adele - Hello (Official Video)'', yt_viewCount = 0\<rparr>] ! 1) \<and>
   \<not> strict_match \<lparr>sp_id = ''a1'', sp_name = ''Hello'', sp_artists = ''Mark Ronson, Adele'', sp_position = 1\<rparr>
     ([\<lparr>yt_id = ''b2'', yt_title = ''Someone - Hello There'', yt_viewCount = 0\<rparr>,
       \<lparr>yt_id = ''b1'', yt_title = ''Adele - Hello (Official Video)'', yt_viewCount = 0\<rparr>] ! 0) \<and>
   best_yt_id \<lparr>sp_id = ''a1'', sp_name = ''Hello'', sp_artists = ''Mark Ronson, Adele'', sp_position = 1\<rparr>
     [\<lparr>yt_id = ''b2'', yt_title = ''Someone - Hello There'', yt_viewCount = 0\<rparr>,
      \<lparr>yt_id = ''b1'', yt_title = ''Adele - Hello (Official Video)'', yt_viewCount = 0\<rparr>] = Some ''b1'' \<and>
   relaxed_match \<lparr>sp_id = ''a2'', sp_name = ''Hello'', sp_artists = ''Nobody, Else'', sp_position = 2\<rparr>
     ([\<lparr>yt_id = ''b2'', yt_title = ''Someone - Hello There'', yt_viewCount = 0\<rparr>,
       \<lparr>yt_id = ''b1'', yt_title = ''Adele - Hello (Official Video)'', yt_viewCount = 0\<rparr>] ! 0) \<and>
   best_yt_id \<lparr>sp_id = ''a2'', sp_name = ''Hello'', sp_artists = ''Nobody, Else'', sp_position = 2\<rparr>
     [\<lparr>yt_id = ''b2'', yt_title = ''Someone - Hello There'', yt_viewCount = 0\<rparr>,
      \<lparr>yt_id = ''b1'', yt_title = ''Adele - Hello (Official Video)'', yt_viewCount = 0\<rparr>] = Some ''b2'' \<and>
   best_yt_id \<lparr>sp_id = ''a3'', sp_name = ''Goodbye'', sp_artists = ''Adele'', sp_position = 3\<rparr>
     [\<lparr>yt_id = ''b2'', yt_title = ''Someone - Hello There'', yt_viewCount = 0\<rparr>,
      \<lparr>yt_id = ''b1'', yt_title = ''Adele - Hello (Official Video)'', yt_viewCount = 0\<rparr>] = None \<and>
   mapping_loop
     [\<lparr>sp_id = ''a3'', sp_name = ''Goodbye'', sp_artists = ''Adele'', sp_position = 3\<rparr>,
      \<lparr>sp_id = ''a1'', sp_name = ''Hello'', sp_artists = ''Mark Ronson, Adele'', sp_position = 1\<rparr>]
     [\<lparr>yt_id = ''b2'', yt_title = ''Someone - Hello There'', yt_viewCount = 0\<rparr>,
      \<lparr>yt_id = ''b1'', yt_title = ''Adele - Hello (Official Video)'', yt_viewCount = 0\<rparr>]
     Map.empty ''a1'' = Some ''b1'' \<and>
   '' Adele'' \<in> set (split CHR '','' ''Mark Ronson, Adele'') \<and>
   CHR '','' \<notin> set '' Adele''"
proof -
  let ?B = "[\<lparr>yt_id = ''b2'', yt_title = ''Someone - Hello There'', yt_viewCount = 0\<rparr>,
      \<lparr>yt_id = ''b1'', yt_title = ''Adele - Hello (Official Video)'', yt_viewCount = 0\<rparr>]"
  let ?A1 = "\<lparr>sp_id = ''a1'', sp_name = ''Hello'', sp_artists = ''Mark Ronson, Adele'', sp_position = 1\<rparr>"
  let ?A2 = "\<lparr>sp_id = ''a2'', sp_name = ''Hello'', sp_artists = ''Nobody, Else'', sp_position = 2\<rparr>"
  let ?A3 = "\<lparr>sp_id = ''a3'', sp_name = ''Goodbye'', sp_artists = ''Adele'', sp_position = 3\<rparr>"
  have s1: "strict_match ?A1 (?B ! 1)" by code_simp
  have s0: "\<not> strict_match ?A1 (?B ! 0)" by code_simp
  have l1: "(1::nat) < length ?B" and l0: "(0::nat) < length ?B" by simp_all
  have s0': "\<forall>j<1. \<not> strict_match ?A1 (?B ! j)"
  proof (intro allI impI)
    fix j :: nat assume "j < 1"
    then have "j = 0" by simp
    with s0 show "\<not> strict_match ?A1 (?B ! j)" by simp
  qed
  have b1: "best_yt_id ?A1 ?B = Some (yt_id (?B ! 1))"
    by (rule best_yt_id_first_match [where i = 1 and yt_videos = ?B and t = ?A1,
          THEN conjunct1, THEN mp]) (intro conjI l1 s1 s0')
  have n0: "\<not> strict_match ?A2 (?B ! 0)" by code_simp
  have n1: "\<not> strict_match ?A2 (?B ! 1)" by code_simp
  have len: "length ?B = Suc (Suc 0)" by simp
  have two: "\<And>j::nat. j < Suc (Suc 0) \<Longrightarrow> j = 0 \<or> j = 1" by auto
  have n: "\<forall>j<length ?B. \<not> strict_match ?A2 (?B ! j)"
  proof (intro allI impI)
    fix j :: nat assume "j < length ?B"
    then have "j < Suc (Suc 0)" by (simp only: len)
    then have "j = 0 \<or> j = 1" by (rule two)
    with n0 n1 show "\<not> strict_match ?A2 (?B ! j)" by (elim disjE) simp_all
  qed
  have r0: "relaxed_match ?A2 (?B ! 0)" by code_simp
  have r0': "\<forall>j<0. \<not> relaxed_match ?A2 (?B ! j)" by (intro allI impI) (simp only: not_less_zero)
  have b2: "best_yt_id ?A2 ?B = Some (yt_id (?B ! 0))"
    by (rule best_yt_id_first_match [where i = 0 and yt_videos = ?B and t = ?A2,
          THEN conjunct2, THEN conjunct1, THEN mp]) (intro conjI n l0 r0 r0')
  have m0: "\<not> relaxed_match ?A3 (?B ! 0)" by code_simp
  have m1: "\<not> relaxed_match ?A3 (?B ! 1)" by code_simp
  have m: "\<forall>j<length ?B. \<not> relaxed_match ?A3 (?B ! j)"
  proof (intro allI impI)
    fix j :: nat assume "j < length ?B"
    then have "j < Suc (Suc 0)" by (simp only: len)
    then have "j = 0 \<or> j = 1" by (rule two)
    with m0 m1 show "\<not> relaxed_match ?A3 (?B ! j)" by (elim disjE) simp_all
  qed
  have b3: "best_yt_id ?A3 ?B = None"
    by (rule best_yt_id_first_match [where yt_videos = ?B and t = ?A3,
          THEN conjunct2, THEN conjunct2, THEN conjunct1, THEN mp]) (rule m)
  have d: "distinct (map sp_id [?A3, ?A1])" by simp
  have e: "?A1 \<in> set [?A3, ?A1]" by simp
  have b4: "mapping_loop [?A3, ?A1] ?B Map.empty (sp_id ?A1) = best_yt_id ?A1 ?B"
    by (rule best_yt_id_first_match [where t = ?A1 and sp_tracks = "[?A3, ?A1]" and yt_videos = ?B,
          THEN conjunct2, THEN conjunct2, THEN conjunct2, THEN conjunct1, THEN mp]) (intro conjI d e)
  have i1: "yt_id (?B ! 1) = ''b1''" and i0: "yt_id (?B ! 0) = ''b2''" and a1: "sp_id ?A1 = ''a1''"
    by simp_all
  from b1 have b1': "best_yt_id ?A1 ?B = Some ''b1''" by (simp only: i1)
  from b2 have b2': "best_yt_id ?A2 ?B = Some ''b2''" by (simp only: i0)
  from b4 have b4': "mapping_loop [?A3, ?A1] ?B Map.empty ''a1'' = Some ''b1''"
    by (simp only: a1 b1')
  have p: "'' Adele'' \<in> set (split CHR '','' ''Mark Ronson, Adele'')" by code_simp
  have q: "CHR '','' \<notin> set '' Adele''"
    by (rule best_yt_id_first_match [where sep = "CHR '',''" and str = "''Mark Ronson, Adele''",
          THEN conjunct2, THEN conjunct2, THEN conjunct2, THEN conjunct2, THEN conjunct2,
          THEN conjunct2, THEN conjunct2, THEN conjunct1, THEN bspec]) (rule p)
  show ?thesis by (intro conjI s1 s0 b1' r0 b2' b3 b4' p q)
qed

lemma fold_upd_conv:
  "fold (\<lambda>(k, v) m. m(k \<mapsto> v)) ps m = m ++ map_of (rev ps)"
proof (induction ps arbitrary: m)
  case Nil
  then show ?case by simp
next
  case (Cons p ps)
  obtain k v where p: "p = (k, v)" by (cases p)
  have "m(k \<mapsto> v) ++ map_of (rev ps) = m ++ (map_of [(k, v)] ++ map_of (rev ps))"
    by (rule ext) (simp add: map_add_def split: option.splits)
  with Cons.IH [of "m(k \<mapsto> v)"] p show ?case by (simp only: fold_Cons comp_apply split rev.simps map_of_append)
qed

lemma dict_of_map_of: "dict_of ps = map_of (rev ps)"
  by (simp add: dict_of_def fold_upd_conv)

lemma dom_dict_of: "dom (dict_of ps) = fst ` set ps"
  by (simp add: dict_of_map_of dom_map_of_conv_image_fst)

lemma dict_of_distinct: "distinct (map fst ps) \<Longrightarrow> dict_of ps = map_of ps"
proof -
  assume d: "distinct (map fst ps)"
  then have "distinct (map fst (rev ps))" by (simp add: rev_map [symmetric])
  with d have "map_of (rev ps) = map_of ps"
    using map_of_inject_set [of "rev ps" ps] by simp
  then show ?thesis by (simp add: dict_of_map_of)
qed

lemma set_common_dates:
  "set (common_dates yt_days sp_days) = fst ` set yt_days \<inter> fst ` set sp_days"
  by (auto simp: common_dates_def)

lemma sorted_reverse_desc:
  "i < j \<Longrightarrow> j < length xs \<Longrightarrow> key (sorted_reverse key xs ! j) \<le> key (sorted_reverse key xs ! i)"
proof -
  assume ij: "i < j" "j < length xs"
  let ?ys = "sort_key (\<lambda>x. - key x) xs"
  have "sorted (map (\<lambda>x. - key x) ?ys)" by (rule sorted_sort_key)
  with ij have "map (\<lambda>x. - key x) ?ys ! i \<le> map (\<lambda>x. - key x) ?ys ! j"
    by (simp add: sorted_iff_nth_mono del: sorted_sort_key)
  with ij show ?thesis by (simp add: sorted_reverse_def)
qed

lemma mset_sorted_reverse: "mset (sorted_reverse key xs) = mset xs"
  by (simp add: sorted_reverse_def)

lemma length_sorted_reverse: "length (sorted_reverse key xs) = length xs"
  by (simp add: sorted_reverse_def)

lemma sorted_reverse_stable:
  "filter (\<lambda>x. key x = k) (sorted_reverse key xs) = filter (\<lambda>x. key x = k) xs"
proof -
  have "filter (\<lambda>x. - key x = - k) (sort_key (\<lambda>x. - key x) xs) = filter (\<lambda>x. - key x = - k) xs"
    by (rule sort_key_stable)
  then show ?thesis by (simp add: sorted_reverse_def)
qed

lemma distinct_ids_sorted:
  "distinct (map yt_id vs) \<Longrightarrow> distinct (map yt_id (yt_sorted vs))"
proof -
  assume d: "distinct (map yt_id vs)"
  have "mset (map yt_id (yt_sorted vs)) = mset (map yt_id vs)"
    by (simp add: yt_sorted_def mset_sorted_reverse)
  with d show ?thesis by (metis mset_eq_imp_distinct_iff)
qed

lemma rank_pairs_zip:
  "map (\<lambda>(rank, v). (yt_id v, rank)) (enumerate 1 ys) = zip (map yt_id ys) [1..<length ys + 1]"
  by (simp add: enumerate_eq_zip zip_map2 zip_map1 zip_commute [of ys] map_prod_def split_def add.commute)

lemma yt_rank_zip:
  "distinct (map yt_id vs) \<Longrightarrow>
   yt_rank vs = map_of (zip (map yt_id (yt_sorted vs)) [1..<length vs + 1])"
proof -
  assume d: "distinct (map yt_id vs)"
  let ?ys = "yt_sorted vs"
  have l: "length ?ys = length vs" by (simp add: yt_sorted_def length_sorted_reverse)
  from d have "distinct (map yt_id ?ys)" by (rule distinct_ids_sorted)
  then have "distinct (map fst (zip (map yt_id ?ys) [1..<length ?ys + 1]))" by simp
  then show ?thesis
    unfolding yt_rank_def ranked_def rank_pairs_zip using l by (simp add: dict_of_distinct)
qed

lemma yt_rank_nth:
  assumes "distinct (map yt_id vs)" "p < length vs"
  shows "yt_rank vs (yt_id (yt_sorted vs ! p)) = Some (p + 1)"
proof -
  let ?ys = "yt_sorted vs"
  have l: "length ?ys = length vs" by (simp add: yt_sorted_def length_sorted_reverse)
  from assms(1) have d: "distinct (map yt_id ?ys)" by (rule distinct_ids_sorted)
  have "map_of (zip (map yt_id ?ys) [1..<length vs + 1]) (map yt_id ?ys ! p) = Some ([1..<length vs + 1] ! p)"
    using d assms(2) l by (intro map_of_zip_nth) simp_all
  moreover have "[1..<length vs + 1] ! p = p + 1"
    using assms(2) nth_upt [of 1 p "length vs + 1"] by (simp del: upt_Suc)
  ultimately show ?thesis using assms l by (simp add: yt_rank_zip del: upt_Suc)
qed

lemma ran_yt_rank:
  assumes "distinct (map yt_id vs)"
  shows "ran (yt_rank vs) = {1..length vs}" and "dom (yt_rank vs) = yt_id ` set vs"
proof -
  let ?ys = "yt_sorted vs"
  have l: "length ?ys = length vs" by (simp add: yt_sorted_def length_sorted_reverse)
  from assms have d: "distinct (map yt_id ?ys)" by (rule distinct_ids_sorted)
  have "ran (map_of (zip (map yt_id ?ys) [1..<length vs + 1])) = set [1..<length vs + 1]"
    using d l by (intro ran_map_of_zip) (simp_all del: upt_Suc)
  moreover have "set [1..<length vs + 1] = {1..length vs}" by (auto simp del: upt_Suc)
  ultimately show "ran (yt_rank vs) = {1..length vs}" using assms by (simp add: yt_rank_zip del: upt_Suc)
  have "set ?ys = set vs" by (simp add: yt_sorted_def sorted_reverse_def)
  moreover have "fst ` set (map (\<lambda>(rank, v). (yt_id v, rank)) (enumerate 1 ?ys)) = yt_id ` set ?ys"
    unfolding rank_pairs_zip
    by (metis (no_types) map_fst_zip length_map length_upt add_diff_cancel_right' list.set_map)
  ultimately show "dom (yt_rank vs) = yt_id ` set vs"
    by (simp add: yt_rank_def ranked_def dom_dict_of)
qed

lemma filter_eq_split:
  "filter P ys = as @ a # bs \<Longrightarrow> \<exists>us ws. ys = us @ a # ws \<and> filter P us = as \<and> filter P ws = bs"
proof (induction ys arbitrary: as)
  case Nil
  then show ?case by simp
next
  case (Cons y ys)
  show ?case
  proof (cases "P y")
    case False
    with Cons.prems have "filter P ys = as @ a # bs" by simp
    from Cons.IH [OF this] obtain us ws
      where "ys = us @ a # ws" "filter P us = as" "filter P ws = bs" by blast
    with False have "y # ys = (y # us) @ a # ws \<and> filter P (y # us) = as \<and> filter P ws = bs" by simp
    then show ?thesis by blast
  next
    case True
    show ?thesis
    proof (cases as)
      case Nil
      with True Cons.prems have "y # ys = [] @ a # ys \<and> filter P [] = as \<and> filter P ys = bs" by simp
      then show ?thesis by blast
    next
      case (Cons a' as')
      with True Cons.prems have "a' = y" "filter P ys = as' @ a # bs" by simp_all
      from Cons.IH [OF this(2)] obtain us ws
        where "ys = us @ a # ws" "filter P us = as'" "filter P ws = bs" by blast
      with True Cons \<open>a' = y\<close>
      have "y # ys = (y # us) @ a # ws \<and> filter P (y # us) = as \<and> filter P ws = bs" by simp
      then show ?thesis by blast
    qed
  qed
qed

lemma filter_keeps_order:
  assumes "i < j" "j < length xs" "P (xs ! i)" "P (xs ! j)" "filter P ys = filter P xs"
  shows "\<exists>p q. p < q \<and> q < length ys \<and> ys ! p = xs ! i \<and> ys ! q = xs ! j"
proof -
  from assms(1,2) have i: "i < length xs" by simp
  let ?tl = "drop (Suc i) xs"
  have xs: "xs = take i xs @ xs ! i # ?tl" using i by (simp add: id_take_nth_drop)
  have j': "j - Suc i < length ?tl" using assms(1,2) by simp
  have tlj: "?tl ! (j - Suc i) = xs ! j" using assms(1,2) by simp
  have tl: "?tl = take (j - Suc i) ?tl @ xs ! j # drop (Suc (j - Suc i)) ?tl"
    using id_take_nth_drop [OF j'] tlj by simp
  have "filter P xs = filter P (take i xs) @ xs ! i # filter P ?tl"
    using assms(3) by (subst xs) simp
  with assms(5) have "filter P ys = filter P (take i xs) @ xs ! i # filter P ?tl" by simp
  from filter_eq_split [OF this] obtain us ws
    where ys: "ys = us @ xs ! i # ws" and ws: "filter P ws = filter P ?tl" by blast
  have "filter P ?tl = filter P (take (j - Suc i) ?tl) @ xs ! j # filter P (drop (Suc (j - Suc i)) ?tl)"
    using assms(4) by (subst tl) simp
  with ws have "filter P ws = filter P (take (j - Suc i) ?tl) @ xs ! j # filter P (drop (Suc (j - Suc i)) ?tl)"
    by simp
  from filter_eq_split [OF this] obtain us' ws' where ws': "ws = us' @ xs ! j # ws'" by blast
  let ?p = "length us" and ?q = "length us + Suc (length us')"
  have "ys ! ?p = xs ! i" using ys by simp
  moreover have "ys ! ?q = xs ! j" using ys ws' by (simp add: nth_append)
  moreover have "?p < ?q" "?q < length ys" using ys ws' by simp_all
  ultimately show ?thesis by blast
qed

text \<open>
  C2. Sorting by view count descending and enumerating from 1 gives the ranks
  \<open>1, 2, \<dots>, N\<close> in this order, so the set of ranks is \<open>{1..N}\<close> without gaps or
  duplicates; every input entity appears once in the ranked series; and along increasing
  rank the view counts never increase. When the video ids are pairwise different, the
  lookup table \<open>yt_rank\<close> has exactly the ids as keys and \<open>{1..N}\<close> as ranks. The same
  holds of the rank and view-count series of both distribution plots.
\<close>

theorem rank_assignment_ranks:
  "map fst (ranked yt_videos) = [1..<length yt_videos + 1] \<and>
   set (map fst (ranked yt_videos)) = {1..length yt_videos} \<and>
   distinct (map fst (ranked yt_videos)) \<and>
   mset (map snd (ranked yt_videos)) = mset yt_videos \<and>
   (\<forall>i j. i < j \<and> j < length yt_videos \<longrightarrow>
      fst (ranked yt_videos ! i) < fst (ranked yt_videos ! j) \<and>
      yt_viewCount (snd (ranked yt_videos ! j)) \<le> yt_viewCount (snd (ranked yt_videos ! i))) \<and>
   (distinct (map yt_id yt_videos) \<longrightarrow>
      dom (yt_rank yt_videos) = yt_id ` set yt_videos \<and> ran (yt_rank yt_videos) = {1..length yt_videos}) \<and>
   set (ranks (views_sorted views)) = {1..length views} \<and>
   mset (views_sorted views) = mset views \<and>
   (\<forall>i j. i < j \<and> j < length views \<longrightarrow> views_sorted views ! j \<le> views_sorted views ! i) \<and>
   set (ranks (sorted_views views)) = {1..length views} \<and>
   mset (sorted_views views) = mset views \<and>
   (\<forall>i j. i < j \<and> j < length views \<longrightarrow> sorted_views views ! j \<le> sorted_views views ! i)"
proof -
  have l: "length (yt_sorted yt_videos) = length yt_videos"
    by (simp add: yt_sorted_def length_sorted_reverse)
  have fst_r: "map fst (ranked yt_videos) = [1..<length yt_videos + 1]"
    by (simp add: ranked_def l del: upt_Suc)
  have u: "set [1..<length yt_videos + 1] = {1..length yt_videos}" by (auto simp del: upt_Suc)
  have c1: "set (map fst (ranked yt_videos)) = {1..length yt_videos}"
    by (simp only: fst_r u)
  have c2: "distinct (map fst (ranked yt_videos))" by (simp only: fst_r distinct_upt)
  have c3: "mset (map snd (ranked yt_videos)) = mset yt_videos"
    by (simp add: ranked_def yt_sorted_def mset_sorted_reverse)
  have c4: "\<forall>i j. i < j \<and> j < length yt_videos \<longrightarrow>
      fst (ranked yt_videos ! i) < fst (ranked yt_videos ! j) \<and>
      yt_viewCount (snd (ranked yt_videos ! j)) \<le> yt_viewCount (snd (ranked yt_videos ! i))"
  proof (intro allI impI)
    fix i j assume ij: "i < j \<and> j < length yt_videos"
    then have "i < length (yt_sorted yt_videos)" "j < length (yt_sorted yt_videos)"
      by (simp_all add: l)
    then have "ranked yt_videos ! i = (1 + i, yt_sorted yt_videos ! i)"
      "ranked yt_videos ! j = (1 + j, yt_sorted yt_videos ! j)"
      by (simp_all add: ranked_def nth_enumerate_eq)
    with ij sorted_reverse_desc [of i j yt_videos yt_viewCount]
    show "fst (ranked yt_videos ! i) < fst (ranked yt_videos ! j) \<and>
      yt_viewCount (snd (ranked yt_videos ! j)) \<le> yt_viewCount (snd (ranked yt_videos ! i))"
      by (simp add: yt_sorted_def)
  qed
  have c5: "distinct (map yt_id yt_videos) \<longrightarrow>
      dom (yt_rank yt_videos) = yt_id ` set yt_videos \<and> ran (yt_rank yt_videos) = {1..length yt_videos}"
    by (simp add: ran_yt_rank)
  have u': "\<And>n. set [1..<n + 1] = {1..n}" by (auto simp del: upt_Suc)
  have c6: "set (ranks (views_sorted views)) = {1..length views}"
    unfolding ranks_def views_sorted_def length_sorted_reverse by (rule u')
  have c7: "mset (views_sorted views) = mset views"
    by (simp add: views_sorted_def mset_sorted_reverse)
  have c8: "\<forall>i j. i < j \<and> j < length views \<longrightarrow> views_sorted views ! j \<le> views_sorted views ! i"
    using sorted_reverse_desc [of _ _ views "\<lambda>x. x"] by (simp add: views_sorted_def)
  have c9: "set (ranks (sorted_views views)) = {1..length views}"
    unfolding ranks_def sorted_views_def length_rev length_sort by (rule u')
  have c10: "mset (sorted_views views) = mset views" by (simp add: sorted_views_def)
  have c11: "\<forall>i j. i < j \<and> j < length views \<longrightarrow> sorted_views views ! j \<le> sorted_views views ! i"
  proof (intro allI impI)
    fix i j assume ij: "i < j \<and> j < length views"
    have "sorted (rev (sorted_views views))" by (simp add: sorted_views_def)
    then show "sorted_views views ! j \<le> sorted_views views ! i"
      using ij sorted_rev_nth_mono [of "sorted_views views" i j] by (simp add: sorted_views_def)
  qed
  from fst_r c1 c2 c3 c4 c5 c6 c7 c8 c9 c10 c11 show ?thesis by blast
qed

theorem rank_assignment_ranks_witness:
  "distinct (map yt_id
     [\<lparr>yt_id = ''a'', yt_title = ''A'', yt_viewCount = 5\<rparr>, \<lparr>yt_id = ''b'', yt_title = ''B'', yt_viewCount = 7\<rparr>,
      \<lparr>yt_id = ''c'', yt_title = ''C'', yt_viewCount = 5\<rparr>, \<lparr>yt_id = ''d'', yt_title = ''D'', yt_viewCount = 7\<rparr>]) \<and>
   ran (yt_rank
     [\<lparr>yt_id = ''a'', yt_title = ''A'', yt_viewCount = 5\<rparr>, \<lparr>yt_id = ''b'', yt_title = ''B'', yt_viewCount = 7\<rparr>,
      \<lparr>yt_id = ''c'', yt_title = ''C'', yt_viewCount = 5\<rparr>, \<lparr>yt_id = ''d'', yt_title = ''D'', yt_viewCount = 7\<rparr>]) = {1..4} \<and>
   yt_viewCount (snd (ranked
     [\<lparr>yt_id = ''a'', yt_title = ''A'', yt_viewCount = 5\<rparr>, \<lparr>yt_id = ''b'', yt_title = ''B'', yt_viewCount = 7\<rparr>,
      \<lparr>yt_id = ''c'', yt_title = ''C'', yt_viewCount = 5\<rparr>, \<lparr>yt_id = ''d'', yt_title = ''D'', yt_viewCount = 7\<rparr>] ! 2))
   \<le> yt_viewCount (snd (ranked
     [\<lparr>yt_id = ''a'', yt_title = ''A'', yt_viewCount = 5\<rparr>, \<lparr>yt_id = ''b'', yt_title = ''B'', yt_viewCount = 7\<rparr>,
      \<lparr>yt_id = ''c'', yt_title = ''C'', yt_viewCount = 5\<rparr>, \<lparr>yt_id = ''d'', yt_title = ''D'', yt_viewCount = 7\<rparr>] ! 1)) \<and>
   views_sorted [3, 1, 2, 3] ! 3 \<le> views_sorted [3, 1, 2, 3] ! 0 \<and>
   sorted_views [3, 1, 2, 3] ! 3 \<le> sorted_views [3, 1, 2, 3] ! 0"
proof -
  let ?V = "[\<lparr>yt_id = ''a'', yt_title = ''A'', yt_viewCount = 5\<rparr>, \<lparr>yt_id = ''b'', yt_title = ''B'', yt_viewCount = 7\<rparr>,
      \<lparr>yt_id = ''c'', yt_title = ''C'', yt_viewCount = 5\<rparr>, \<lparr>yt_id = ''d'', yt_title = ''D'', yt_viewCount = 7\<rparr>]"
  let ?views = "[3, 1, 2, 3] :: int list"
  note t = rank_assignment_ranks [of ?V ?views]
  note t5 = t [THEN conjunct2, THEN conjunct2, THEN conjunct2, THEN conjunct2]
  note t9 = t5 [THEN conjunct2, THEN conjunct2, THEN conjunct2, THEN conjunct2]
  have d: "distinct (map yt_id ?V)" by simp
  have lV: "length ?V = 4" by simp
  have lv: "length ?views = 4" by simp
  have "ran (yt_rank ?V) = {1..length ?V}"
    by (rule t5 [THEN conjunct2, THEN conjunct1, THEN mp, OF d, THEN conjunct2])
  then have r: "ran (yt_rank ?V) = {1..4}" by (simp only: lV)
  have h12: "(1::nat) < 2 \<and> 2 < length ?V" by simp
  have m: "yt_viewCount (snd (ranked ?V ! 2)) \<le> yt_viewCount (snd (ranked ?V ! 1))"
    by (rule t5 [THEN conjunct1, THEN spec, THEN spec, THEN mp, OF h12, THEN conjunct2])
  have h03: "(0::nat) < 3 \<and> 3 < length ?views" by simp
  have v1: "views_sorted ?views ! 3 \<le> views_sorted ?views ! 0"
    by (rule t9 [THEN conjunct1, THEN spec, THEN spec, THEN mp, OF h03])
  have v2: "sorted_views ?views ! 3 \<le> sorted_views ?views ! 0"
    by (rule t9 [THEN conjunct2, THEN conjunct2, THEN conjunct2, THEN spec, THEN spec, THEN mp, OF h03])
  show ?thesis by (intro conjI d r m v1 v2)
qed

text \<open>
  C3. Rank assignment is stable: for every view count, the entities with that view count
  stand in the ranked series in their input order. With pairwise different video ids, of
  two entities with equal view counts the one earlier in the input has the smaller rank
  in \<open>yt_rank\<close>.
\<close>

theorem rank_assignment_stable:
  "filter (\<lambda>v. yt_viewCount v = k) (map snd (ranked yt_videos)) = filter (\<lambda>v. yt_viewCount v = k) yt_videos \<and>
   (distinct (map yt_id yt_videos) \<and> i < j \<and> j < length yt_videos \<and>
    yt_viewCount (yt_videos ! i) = yt_viewCount (yt_videos ! j) \<longrightarrow>
      (\<exists>ri rj. yt_rank yt_videos (yt_id (yt_videos ! i)) = Some ri \<and>
               yt_rank yt_videos (yt_id (yt_videos ! j)) = Some rj \<and> ri < rj))"
proof (intro conjI impI)
  show "filter (\<lambda>v. yt_viewCount v = k) (map snd (ranked yt_videos)) = filter (\<lambda>v. yt_viewCount v = k) yt_videos"
    by (simp add: ranked_def yt_sorted_def sorted_reverse_stable)
next
  assume a: "distinct (map yt_id yt_videos) \<and> i < j \<and> j < length yt_videos \<and>
    yt_viewCount (yt_videos ! i) = yt_viewCount (yt_videos ! j)"
  let ?P = "\<lambda>v. yt_viewCount v = yt_viewCount (yt_videos ! j)"
  have l: "length (yt_sorted yt_videos) = length yt_videos"
    by (simp add: yt_sorted_def length_sorted_reverse)
  have "filter ?P (yt_sorted yt_videos) = filter ?P yt_videos"
    by (simp add: yt_sorted_def sorted_reverse_stable)
  with a obtain p q where pq: "p < q" "q < length (yt_sorted yt_videos)"
      "yt_sorted yt_videos ! p = yt_videos ! i" "yt_sorted yt_videos ! q = yt_videos ! j"
    using filter_keeps_order [of i j yt_videos ?P "yt_sorted yt_videos"] by auto
  from a pq l have "yt_rank yt_videos (yt_id (yt_sorted yt_videos ! p)) = Some (p + 1)"
    by (intro yt_rank_nth) simp_all
  moreover from a pq l have "yt_rank yt_videos (yt_id (yt_sorted yt_videos ! q)) = Some (q + 1)"
    by (intro yt_rank_nth) simp_all
  ultimately show "\<exists>ri rj. yt_rank yt_videos (yt_id (yt_videos ! i)) = Some ri \<and>
               yt_rank yt_videos (yt_id (yt_videos ! j)) = Some rj \<and> ri < rj"
    using pq by auto
qed

theorem rank_assignment_stable_witness:
  "distinct (map yt_id
     [\<lparr>yt_id = ''a'', yt_title = ''A'', yt_viewCount = 5\<rparr>, \<lparr>yt_id = ''b'', yt_title = ''B'', yt_viewCount = 7\<rparr>,
      \<lparr>yt_id = ''c'', yt_title = ''C'', yt_viewCount = 5\<rparr>, \<lparr>yt_id = ''d'', yt_title = ''D'', yt_viewCount = 7\<rparr>]) \<and>
   (\<exists>ri rj.
      yt_rank
        [\<lparr>yt_id = ''a'', yt_title = ''A'', yt_viewCount = 5\<rparr>, \<lparr>yt_id = ''b'', yt_title = ''B'', yt_viewCount = 7\<rparr>,
         \<lparr>yt_id = ''c'', yt_title = ''C'', yt_viewCount = 5\<rparr>, \<lparr>yt_id = ''d'', yt_title = ''D'', yt_viewCount = 7\<rparr>]
        ''b'' = Some ri \<and>
      yt_rank
        [\<lparr>yt_id = ''a'', yt_title = ''A'', yt_viewCount = 5\<rparr>, \<lparr>yt_id = ''b'', yt_title = ''B'', yt_viewCount = 7\<rparr>,
         \<lparr>yt_id = ''c'', yt_title = ''C'', yt_viewCount = 5\<rparr>, \<lparr>yt_id = ''d'', yt_title = ''D'', yt_viewCount = 7\<rparr>]
        ''d'' = Some rj \<and> ri < rj)"
proof -
  let ?V = "[\<lparr>yt_id = ''a'', yt_title = ''A'', yt_viewCount = 5\<rparr>, \<lparr>yt_id = ''b'', yt_title = ''B'', yt_viewCount = 7\<rparr>,
      \<lparr>yt_id = ''c'', yt_title = ''C'', yt_viewCount = 5\<rparr>, \<lparr>yt_id = ''d'', yt_title = ''D'', yt_viewCount = 7\<rparr>]"
  have d: "distinct (map yt_id ?V)" by simp
  have h: "(1::nat) < 3 \<and> 3 < length ?V \<and> yt_viewCount (?V ! 1) = yt_viewCount (?V ! 3)" by simp
  have i1: "yt_id (?V ! 1) = ''b''" and i3: "yt_id (?V ! 3) = ''d''" by simp_all
  have "\<exists>ri rj. yt_rank ?V (yt_id (?V ! 1)) = Some ri \<and> yt_rank ?V (yt_id (?V ! 3)) = Some rj \<and> ri < rj"
    by (rule rank_assignment_stable [where yt_videos = ?V and i = 1 and j = 3, THEN conjunct2, THEN mp])
      (intro conjI d h [THEN conjunct1] h [THEN conjunct2, THEN conjunct1] h [THEN conjunct2, THEN conjunct2])
  then have e: "\<exists>ri rj. yt_rank ?V ''b'' = Some ri \<and> yt_rank ?V ''d'' = Some rj \<and> ri < rj"
    by (simp only: i1 i3)
  show ?thesis by (intro conjI d e)
qed


section \<open>Properties of the loaders\<close>

lemma dict_get_dict: "is_dict x \<Longrightarrow> \<exists>v. dict_get x key d = Inr v"
  by (cases x) (simp_all add: is_dict_def dict_get_def)

lemma count_ok_int:
  "count_ok st key \<Longrightarrow> \<exists>v n. dict_get st key (JInt 0) = Inr v \<and> py_int v = Inr n"
  by (cases st) (auto simp: count_ok_def dict_get_def py_int_def split: option.splits sum.splits)

lemma item_row_eval:
  assumes "dict_get snippet ''title'' (JStr ''Unknown title'') = Inr title"
    and "dict_get stats ''likeCount'' (JInt 0) = Inr lc" and "py_int lc = Inr likes"
    and "dict_get stats ''dislikeCount'' (JInt 0) = Inr dc" and "py_int dc = Inr dislikes"
    and "snippet = (case map_of kvs ''snippet'' of None \<Rightarrow> JDict [] | Some v \<Rightarrow> v)"
    and "stats = (case map_of kvs ''statistics'' of None \<Rightarrow> JDict [] | Some v \<Rightarrow> v)"
  shows "item_row date (JDict kvs) =
      Inr \<lparr> r_date = date, r_video_id = extract_video_id kvs, r_title = title, r_likes = likes,
            r_dislikes = dislikes, r_diff = likes - dislikes \<rparr>"
  unfolding item_row_def Let_def json.case assms(6) [symmetric] assms(7) [symmetric]
  by (simp only: assms(1-5) sum.case)

lemma item_row_well_formed:
  assumes "well_formed_item item"
  shows "\<exists>r. item_row date item = Inr r \<and> r_date r = date"
proof -
  from assms obtain kvs where item: "item = JDict kvs"
    by (cases item) (simp_all add: well_formed_item_def)
  define snippet where "snippet = (case map_of kvs ''snippet'' of None \<Rightarrow> JDict [] | Some v \<Rightarrow> v)"
  define stats where "stats = (case map_of kvs ''statistics'' of None \<Rightarrow> JDict [] | Some v \<Rightarrow> v)"
  from assms have w: "(case map_of kvs ''snippet'' of None \<Rightarrow> True | Some s \<Rightarrow> is_dict s) \<and>
          (case map_of kvs ''statistics'' of
             None \<Rightarrow> True
           | Some st \<Rightarrow> count_ok st ''likeCount'' \<and> count_ok st ''dislikeCount'')"
    unfolding item well_formed_item_def json.case .
  from w [THEN conjunct1] have "is_dict snippet"
    unfolding snippet_def by (cases "map_of kvs ''snippet''") (simp_all add: is_dict_def)
  from dict_get_dict [OF this] obtain title
    where t: "dict_get snippet ''title'' (JStr ''Unknown title'') = Inr title" ..
  have e: "count_ok (JDict []) ''likeCount''" "count_ok (JDict []) ''dislikeCount''"
    by (simp_all add: count_ok_def)
  from w [THEN conjunct2] have c: "count_ok stats ''likeCount'' \<and> count_ok stats ''dislikeCount''"
    unfolding stats_def by (cases "map_of kvs ''statistics''") (simp_all add: e)
  from count_ok_int [OF c [THEN conjunct1]] obtain lc likes where
    l: "dict_get stats ''likeCount'' (JInt 0) = Inr lc" "py_int lc = Inr likes"
    by (elim exE conjE)
  from count_ok_int [OF c [THEN conjunct2]] obtain dc dislikes where
    d: "dict_get stats ''dislikeCount'' (JInt 0) = Inr dc" "py_int dc = Inr dislikes"
    by (elim exE conjE)
  have "item_row date (JDict kvs) =
      Inr \<lparr> r_date = date, r_video_id = extract_video_id kvs, r_title = title, r_likes = likes,
            r_dislikes = dislikes, r_diff = likes - dislikes \<rparr>"
    by (rule item_row_eval [OF t l d snippet_def stats_def])
  then show ?thesis unfolding item by simp
qed

lemma item_row_date: "item_row date item = Inr r \<Longrightarrow> r_date r = date"
  by (auto simp: item_row_def Let_def split: json.splits sum.splits)

lemma items_loop_well_formed:
  "list_all well_formed_item data \<Longrightarrow> \<exists>rows'. items_loop date data rows = Inr rows'"
proof (induction data arbitrary: rows)
  case Nil
  then show ?case by simp
next
  case (Cons item data)
  then obtain r where "item_row date item = Inr r" using item_row_well_formed by fastforce
  with Cons show ?case by simp
qed

lemma items_loop_dates:
  "items_loop date data rows = Inr rows' \<Longrightarrow>
   map r_date rows' = map r_date rows @ replicate (length data) date"
proof (induction data arbitrary: rows)
  case Nil
  then show ?case by simp
next
  case (Cons item data)
  then obtain r where r: "item_row date item = Inr r" and
    l: "items_loop date data (rows @ [r]) = Inr rows'"
    by (auto split: sum.splits)
  from Cons.IH [OF l] item_row_date [OF r] show ?case by (simp add: replicate_app_Cons_same)
qed

lemma well_formed_member_read:
  "well_formed_member ms name \<Longrightarrow>
   zip_read ms name = Inr (JList (member_items ms name)) \<and>
   list_all well_formed_item (member_items ms name)"
  by (auto simp: well_formed_member_def list_member_def member_items_def is_list_def
      split: sum.splits json.splits)

lemma files_loop_well_formed:
  "list_all (well_formed_member ms) names \<Longrightarrow> \<exists>rows'. files_loop ms names rows = Inr rows'"
proof (induction names arbitrary: rows)
  case Nil
  then show ?case by simp
next
  case (Cons name names)
  then have w: "well_formed_member ms name" by simp
  from well_formed_member_read [OF w] obtain rows1 where
    "zip_read ms name = Inr (JList (member_items ms name))"
    "items_loop (filename_date name) (member_items ms name) rows = Inr rows1"
    using items_loop_well_formed by blast
  with Cons show ?case by (simp add: Let_def)
qed



lemma files_loop_dates:
  "files_loop ms names rows = Inr rows' \<Longrightarrow>
   map r_date rows' = map r_date rows @
     concat (map (\<lambda>name. replicate (length (member_items ms name)) (filename_date name)) names)"
proof (induction names arbitrary: rows)
  case Nil
  then show ?case by simp
next
  case (Cons name names)
  from Cons.prems obtain entries rows1 where
    z: "zip_read ms name = Inr (JList entries)" and
    i: "items_loop (filename_date name) entries rows = Inr rows1" and
    f: "files_loop ms names rows1 = Inr rows'"
    by (auto simp: Let_def split: sum.splits json.splits)
  from z have "member_items ms name = entries" by (simp add: member_items_def)
  with Cons.IH [OF f] items_loop_dates [OF i] show ?case by simp
qed


lemma make_date_error: "make_date y m d = Inl e \<Longrightarrow> e = ValueError"
  by (simp add: make_date_def split: if_splits)

lemma make_date_value: "make_date y m d = Inr dt \<Longrightarrow> dt = (y, m, d)"
  by (simp add: make_date_def split: if_splits)

lemma strptime_error: "strptime_Ymd s = Inl e \<Longrightarrow> e = ValueError"
  by (auto simp: strptime_Ymd_def dest: make_date_error split: list.splits if_splits prod.splits)

lemma zip_read_error:
  "name \<in> fst ` set ms \<Longrightarrow> zip_read ms name = Inl e \<Longrightarrow> e = ValueError"
proof -
  assume n: "name \<in> fst ` set ms" and z: "zip_read ms name = Inl e"
  from n have "name \<in> dom (dict_of ms)" by (simp add: dom_dict_of)
  then obtain c where "dict_of ms name = Some c" by blast
  with z show ?thesis by (cases c) (simp_all add: zip_read_def)
qed

lemma iter_days_loop_days:
  "iter_days_loop ms names = Inr days \<Longrightarrow>
   list_all2 (\<lambda>name day. strptime_Ymd (first_field (basename name)) = Inr (fst day) \<and>
                          zip_read ms name = Inr (snd day)) names days"
proof (induction names arbitrary: days)
  case Nil
  then show ?case by simp
next
  case (Cons name names)
  from Cons.prems obtain date data days' where
    "strptime_Ymd (first_field (basename name)) = Inr date" "zip_read ms name = Inr data"
    "iter_days_loop ms names = Inr days'" "days = (date, data) # days'"
    by (auto simp: Let_def split: sum.splits)
  with Cons.IH show ?case by simp
qed

lemma iter_days_loop_error:
  "set names \<subseteq> fst ` set ms \<Longrightarrow> iter_days_loop ms names = Inl e \<Longrightarrow> e = ValueError"
proof (induction names)
  case Nil
  then show ?case by simp
next
  case (Cons name names)
  from Cons.prems(1) have n: "name \<in> fst ` set ms" and ns: "set names \<subseteq> fst ` set ms"
    by simp_all
  show ?case
  proof (cases "strptime_Ymd (first_field (basename name))")
    case (Inl e1)
    with Cons.prems(2) have "e = e1" by (simp add: Let_def)
    with Inl strptime_error show ?thesis by blast
  next
    case (Inr date)
    show ?thesis
    proof (cases "zip_read ms name")
      case (Inl e2)
      with Inr Cons.prems(2) have "e = e2" by (simp add: Let_def)
      with Inl zip_read_error [OF n] show ?thesis by blast
    next
      case Inr2: (Inr data)
      with Inr Cons.prems(2) have "iter_days_loop ms names = Inl e"
        by (simp add: Let_def split: sum.splits)
      with Cons.IH [OF ns] show ?thesis by blast
    qed
  qed
qed

lemma iter_days_loop_bad_token:
  "name \<in> set names \<Longrightarrow> strptime_Ymd (first_field (basename name)) = Inl e \<Longrightarrow>
   \<exists>e'. iter_days_loop ms names = Inl e'"
proof (induction names)
  case Nil
  then show ?case by simp
next
  case (Cons n names)
  then show ?case by (auto simp: Let_def split: sum.splits)
qed

lemma two_elem:
  "(n, r') \<in> set (two p q s) \<Longrightarrow> \<exists>c1 c2. s = c1 # c2 # r' \<and> n = 10 * digit c1 + digit c2"
  by (cases "(p, q, s)" rule: two.cases) (auto split: if_splits)

lemma one_elem: "(n, r') \<in> set (one p s) \<Longrightarrow> \<exists>c. s = c # r' \<and> n = digit c"
  by (cases "(p, s)" rule: one.cases) (auto split: if_splits)

lemma space_one_elem:
  "(n, r') \<in> set (space_one p s) \<Longrightarrow> \<exists>c2. s = CHR '' '' # c2 # r'"
  by (cases "(p, s)" rule: space_one.cases) (auto split: if_splits)

lemma match_m_elem:
  "(n, r') \<in> set (match_m s) \<Longrightarrow>
   (\<exists>c1 c2. s = c1 # c2 # r' \<and> n = 10 * digit c1 + digit c2) \<or> (\<exists>c. s = c # r')"
  unfolding match_m_def by (auto dest!: two_elem one_elem)

lemma match_d_elem:
  "(n, r') \<in> set (match_d s) \<Longrightarrow>
   (\<exists>c1 c2. s = c1 # c2 # r' \<and> (n = 10 * digit c1 + digit c2 \<or> c1 = CHR '' '')) \<or>
   (\<exists>c. s = c # r')"
  unfolding match_d_def by (auto dest!: two_elem one_elem space_one_elem)

lemma not_digit_space: "\<not> is_digit CHR '' ''"
  by (simp add: is_digit_def digit_of_def)

lemma strptime_digits8:
  assumes "strptime_Ymd [a, b, c, d, e, f, g, h] = Inr dt" and "is_digit g"
  shows "dt = (1000 * digit a + 100 * digit b + 10 * digit c + digit d,
               10 * digit e + digit f, 10 * digit g + digit h)"
proof -
  let ?trip = "concat (map (\<lambda>(m, r'). map (\<lambda>(d, r''). (m, d, r'')) (match_d r')) (match_m [e, f, g, h]))"
  let ?y = "1000 * digit a + 100 * digit b + 10 * digit c + digit d"
  from assms(1) obtain m dd rest where
    hd: "?trip = (m, dd, []) # rest" and md: "make_date ?y m dd = Inr dt"
    by (auto simp: strptime_Ymd_def split: if_splits list.splits prod.splits)
  from hd have "(m, dd, []) \<in> set ?trip" by simp
  then obtain r' where m: "(m, r') \<in> set (match_m [e, f, g, h])" and d: "(dd, []) \<in> set (match_d r')"
    by auto
  from match_d_elem [OF d] have "length r' \<le> 2" by auto
  with match_m_elem [OF m] have r': "r' = [g, h]" and mv: "m = 10 * digit e + digit f" by auto
  from match_d_elem [OF d] r' assms(2) not_digit_space have "dd = 10 * digit g + digit h" by auto
  with mv make_date_value [OF md] show ?thesis by simp
qed

lemma is_digit_code: "is_digit c \<Longrightarrow> of_char c = 48 + digit c"
  by (auto simp: is_digit_def digit_def digit_of_def split: if_splits)

lemma digit_le: "is_digit c \<Longrightarrow> is_digit c' \<Longrightarrow> c \<le> c' \<longleftrightarrow> digit c \<le> digit c'"
  by (simp add: less_eq_char_def is_digit_code)

lemma digit_less: "is_digit c \<Longrightarrow> is_digit c' \<Longrightarrow> c < c' \<longleftrightarrow> digit c < digit c'"
  by (simp add: less_char_def is_digit_code)

lemma digit_bound: "digit c \<le> 9"
  by (auto simp: digit_def digit_of_def split: option.splits if_splits)

lemma dec_bound: "dec cs < 10 ^ length cs"
proof (induction cs)
  case Nil
  then show ?case by simp
next
  case (Cons c cs)
  have "digit c * 10 ^ length cs + dec cs < digit c * 10 ^ length cs + 10 ^ length cs"
    using Cons by simp
  also have "\<dots> = (digit c + 1) * 10 ^ length cs" by simp
  also have "\<dots> \<le> 10 * 10 ^ length cs" using digit_bound [of c] by (intro mult_right_mono) simp_all
  finally show ?case by simp
qed

lemma lex_dec:
  "length xs = length ys \<Longrightarrow> list_all is_digit xs \<Longrightarrow> list_all is_digit ys \<Longrightarrow> xs \<le> ys \<Longrightarrow>
   dec xs \<le> dec ys"
proof (induction xs ys rule: list_induct2)
  case Nil
  then show ?case by simp
next
  case (Cons x xs y ys)
  from Cons.prems have dx: "is_digit x" and dy: "is_digit y" by simp_all
  from Cons.prems(3) consider "x < y" | "x = y" "xs \<le> ys" by auto
  then show ?case
  proof cases
    case 1
    with dx dy have "digit x + 1 \<le> digit y" by (simp add: digit_less)
    then have "(digit x + 1) * 10 ^ length xs \<le> digit y * 10 ^ length xs"
      by (rule mult_right_mono) simp
    moreover have "dec xs < 10 ^ length xs" by (rule dec_bound)
    ultimately have "digit x * 10 ^ length xs + dec xs \<le> digit y * 10 ^ length xs" by simp
    with Cons.hyps show ?thesis by simp
  next
    case 2
    with Cons show ?thesis by simp
  qed
qed

lemma lex_append_left: "(pre @ a \<le> pre @ b) \<longleftrightarrow> (a \<le> (b :: string))"
  by (induction pre) simp_all

lemma lex_prefix_mono:
  "length a = length b \<Longrightarrow> a @ x \<le> b @ y \<Longrightarrow> a \<le> (b :: string)"
  by (induction a b rule: list_induct2) auto

lemma digit_not_sep: "is_digit c \<Longrightarrow> c \<noteq> CHR ''_'' \<and> c \<noteq> CHR ''/''"
  by (auto simp: is_digit_def digit_of_def)

lemma split_first:
  "sep \<notin> set a \<Longrightarrow> split sep (a @ sep # b) = a # split sep b"
proof (induction a)
  case Nil
  then show ?case by simp
next
  case (Cons c a)
  then have "c \<noteq> sep" "split sep (a @ sep # b) = a # split sep b" by auto
  then show ?case by simp
qed

lemma first_field_token:
  "list_all is_digit tok \<Longrightarrow> first_field (tok @ CHR ''_'' # rest) = tok"
proof -
  assume "list_all is_digit tok"
  then have "CHR ''_'' \<notin> set tok" using digit_not_sep by (auto simp: list_all_iff)
  then show ?thesis by (simp add: first_field_def split_first)
qed

lemma basename_dir:
  assumes "dir = [] \<or> last dir = CHR ''/''" and "CHR ''/'' \<notin> set x"
  shows "basename (dir @ x) = x"
proof -
  from assms(2) have all: "\<forall>c\<in>set (rev x). c \<noteq> CHR ''/''" by auto
  have "takeWhile (\<lambda>c. c \<noteq> CHR ''/'') (rev dir) = []"
  proof (cases "dir = []")
    case True
    then show ?thesis by simp
  next
    case False
    with assms(1) have "hd (rev dir) = CHR ''/''" by (simp add: hd_rev)
    with False show ?thesis by (cases "rev dir") simp_all
  qed
  with all have "takeWhile (\<lambda>c. c \<noteq> CHR ''/'') (rev x @ rev dir) = rev x"
    by (simp add: takeWhile_append)
  then show ?thesis by (simp add: basename_def)
qed

lemma dated_name_form:
  assumes "dated_name dir name"
  shows "\<exists>tok rest. name = dir @ tok @ CHR ''_'' # rest \<and> length tok = 8 \<and>
           list_all is_digit tok \<and> CHR ''/'' \<notin> set rest \<and> (dir = [] \<or> last dir = CHR ''/'')"
proof -
  let ?r = "drop (length dir) name"
  from assms have p: "take (length dir) name = dir" and d: "dir = [] \<or> last dir = CHR ''/''"
    and l: "9 \<le> length ?r" and dg: "list_all is_digit (take 8 ?r)" and u: "?r ! 8 = CHR ''_''"
    and ns: "list_all (\<lambda>c. c \<noteq> CHR ''/'') (drop 9 ?r)"
    by (simp_all add: dated_name_def Let_def)
  have "name = take (length dir) name @ ?r" by simp
  with p have n: "name = dir @ ?r" by simp
  from l have "8 < length ?r" by simp
  then have "?r = take 8 ?r @ ?r ! 8 # drop (Suc 8) ?r" by (rule id_take_nth_drop)
  with u have r: "?r = take 8 ?r @ CHR ''_'' # drop 9 ?r" by simp
  from l have "length (take 8 ?r) = 8" by simp
  moreover from ns have "CHR ''/'' \<notin> set (drop 9 ?r)" by (auto simp: list_all_iff)
  moreover from n r have "name = dir @ take 8 ?r @ CHR ''_'' # drop 9 ?r" by simp
  ultimately show ?thesis using dg d by blast
qed

lemma dated_name_token:
  assumes "name = dir @ tok @ CHR ''_'' # rest" "list_all is_digit tok" "CHR ''/'' \<notin> set rest"
    "dir = [] \<or> last dir = CHR ''/''"
  shows "first_field (basename name) = tok"
proof -
  from assms(2) have "CHR ''/'' \<notin> set tok" using digit_not_sep by (auto simp: list_all_iff)
  with assms(3) have "CHR ''/'' \<notin> set (tok @ CHR ''_'' # rest)" by simp
  with assms(1,4) have "basename name = tok @ CHR ''_'' # rest" by (simp add: basename_dir)
  with assms(2) show ?thesis by (simp add: first_field_token)
qed

lemma token_date:
  assumes "strptime_Ymd tok = Inr dt" "length tok = 8" "list_all is_digit tok"
  shows "dec tok = fst dt * 10000 + fst (snd dt) * 100 + snd (snd dt) \<and>
         fst (snd dt) < 100 \<and> snd (snd dt) < 100"
proof -
  from assms(2) obtain a b c d e f g h where tok: "tok = [a, b, c, d, e, f, g, h]"
    by (auto simp: length_Suc_conv eval_nat_numeral)
  with assms(3) have "is_digit g" by simp
  with assms(1) tok have dt: "dt = (1000 * digit a + 100 * digit b + 10 * digit c + digit d,
               10 * digit e + digit f, 10 * digit g + digit h)"
    using strptime_digits8 by blast
  have "digit e \<le> 9" "digit f \<le> 9" "digit g \<le> 9" "digit h \<le> 9" by (rule digit_bound)+
  with dt tok show ?thesis by simp
qed

lemma date_order:
  fixes y m d y' m' d' :: nat
  assumes "y * 10000 + m * 100 + d \<le> y' * 10000 + m' * 100 + d'"
    "m < 100" "d < 100" "m' < 100" "d' < 100"
  shows "(y, m, d) \<le> (y', m', d')"
proof -
  from assms have "y < y' \<or> (y = y' \<and> (m < m' \<or> (m = m' \<and> d \<le> d')))" by arith
  then show ?thesis by (auto simp: less_eq_prod_def less_prod_def)
qed

lemma dated_names_dates:
  assumes "dated_name dir n1" "dated_name dir n2" "n1 \<le> n2"
    "strptime_Ymd (first_field (basename n1)) = Inr d1"
    "strptime_Ymd (first_field (basename n2)) = Inr d2"
  shows "d1 \<le> d2"
proof -
  from dated_name_form [OF assms(1)] obtain t1 r1 where
    n1: "n1 = dir @ t1 @ CHR ''_'' # r1" "length t1 = 8" "list_all is_digit t1"
      "CHR ''/'' \<notin> set r1" "dir = [] \<or> last dir = CHR ''/''" by blast
  from dated_name_form [OF assms(2)] obtain t2 r2 where
    n2: "n2 = dir @ t2 @ CHR ''_'' # r2" "length t2 = 8" "list_all is_digit t2"
      "CHR ''/'' \<notin> set r2" by blast
  from n1 have f1: "first_field (basename n1) = t1" by (intro dated_name_token) auto
  from n2 n1(5) have f2: "first_field (basename n2) = t2" by (intro dated_name_token) auto
  from assms(3) n1(1) n2(1) have "t1 @ CHR ''_'' # r1 \<le> t2 @ CHR ''_'' # r2"
    by (simp only: lex_append_left)
  with n1(2) n2(2) have "t1 \<le> t2" using lex_prefix_mono [of t1 t2] by simp
  with n1(2,3) n2(2,3) have le: "dec t1 \<le> dec t2" by (intro lex_dec) simp_all
  from assms(4) f1 n1 have e1: "dec t1 = fst d1 * 10000 + fst (snd d1) * 100 + snd (snd d1)"
    "fst (snd d1) < 100" "snd (snd d1) < 100" using token_date [of t1 d1] by simp_all
  from assms(5) f2 n2 have e2: "dec t2 = fst d2 * 10000 + fst (snd d2) * 100 + snd (snd d2)"
    "fst (snd d2) < 100" "snd (snd d2) < 100" using token_date [of t2 d2] by simp_all
  from le e1 e2 have "(fst d1, fst (snd d1), snd (snd d1)) \<le> (fst d2, fst (snd d2), snd (snd d2))"
    by (intro date_order) simp_all
  then show ?thesis by simp
qed

lemma iter_days_loop_sorted:
  assumes "iter_days_loop ms names = Inr days" "sorted names" "list_all (dated_name dir) names"
  shows "sorted (map fst days)"
proof -
  let ?R = "\<lambda>name day. strptime_Ymd (first_field (basename name)) = Inr (fst day) \<and>
                          zip_read ms name = Inr (snd day)"
  from iter_days_loop_days [OF assms(1)] have r: "list_all2 ?R names days" .
  then have len: "length names = length days" by (rule list_all2_lengthD)
  show ?thesis
  proof (unfold sorted_iff_nth_mono, intro allI impI)
    fix i j assume ij: "i \<le> j" "j < length (map fst days)"
    then have i: "i < length names" and j: "j < length names" using len by simp_all
    from assms(2) ij i j have "names ! i \<le> names ! j" by (simp add: sorted_iff_nth_mono)
    moreover from assms(3) i j have "dated_name dir (names ! i) \<and> dated_name dir (names ! j)"
      by (simp add: list_all_length)
    moreover from r i have "strptime_Ymd (first_field (basename (names ! i))) = Inr (fst (days ! i))"
      by (simp add: list_all2_conv_all_nth)
    moreover from r j have "strptime_Ymd (first_field (basename (names ! j))) = Inr (fst (days ! j))"
      by (simp add: list_all2_conv_all_nth)
    ultimately have "fst (days ! i) \<le> fst (days ! j)"
      using dated_names_dates [of dir "names ! i" "names ! j"] by blast
    with i j len show "map fst days ! i \<le> map fst days ! j" by simp
  qed
qed




lemma iter_days_loop_returns:
  "list_all (\<lambda>name. \<not> isl (strptime_Ymd (first_field (basename name))) \<and>
                     \<not> isl (zip_read ms name)) names \<Longrightarrow>
   \<exists>days. iter_days_loop ms names = Inr days"
proof (induction names)
  case Nil
  then show ?case by simp
next
  case (Cons name names)
  then obtain date data days where
    "strptime_Ymd (first_field (basename name)) = Inr date" "zip_read ms name = Inr data"
    "iter_days_loop ms names = Inr days"
    by (cases "strptime_Ymd (first_field (basename name))"; cases "zip_read ms name") auto
  then show ?case by (simp add: Let_def)
qed

text \<open>
  C7. \<open>load_youtube_from_zip\<close> keeps the documents in the order of the archive: its rows
  come in one block per JSON member, in archive order, each block with the date of the
  member's file name, or with no date when the eight-digit token does not parse; such
  documents are included. \<open>iter_youtube_days\<close> yields one snapshot per JSON member in
  ascending order of the member names, with the date parsed from the name; when all
  names consist of one common directory, an eight-digit token, an underscore and a rest,
  the dates ascend; a member whose token does not parse makes it fail with
  \<open>ValueError\<close>. The first loader returns on every archive with a JSON member whose
  documents are lists of well-formed records, the second on every archive whose JSON
  members have a token that parses and a content that is JSON. On the three-document archive of the specification both give the
  dates 2015-01-01, 2015-01-02, 2015-01-03 in this order.
\<close>

theorem loaders_snapshot_order:
  "(fs p = Some (ZipArchive ms) \<and> load_youtube_from_zip fs p = Inr rows \<longrightarrow>
      map r_date rows =
        concat (map (\<lambda>name. replicate (length (member_items ms name)) (filename_date name))
                  (json_members ms))) \<and>
   (zfs p = Some (ZipArchive zms) \<and> iter_youtube_days zfs p = Inr days \<longrightarrow>
      list_all2
        (\<lambda>name day. strptime_Ymd (first_field (basename name)) = Inr (fst day) \<and>
                      zip_read zms name = Inr (snd day))
        (sort (filter (\<lambda>name. endswith name ''.json'') (map fst zms))) days) \<and>
   (zfs p = Some (ZipArchive zms) \<and> iter_youtube_days zfs p = Inr days \<and>
    list_all (dated_name dir) (filter (\<lambda>name. endswith name ''.json'') (map fst zms)) \<longrightarrow>
      sorted (map fst days)) \<and>
   (zfs p = Some (ZipArchive zms) \<and> name \<in> fst ` set zms \<and> endswith name ''.json'' \<and>
    strptime_Ymd (first_field (basename name)) = Inl e \<longrightarrow>
      iter_youtube_days zfs p = Inl ValueError) \<and>
   (fs p = Some (ZipArchive ms) \<and> json_members ms \<noteq> [] \<and>
    list_all (well_formed_member ms) (json_members ms) \<longrightarrow>
      (\<exists>rows. load_youtube_from_zip fs p = Inr rows)) \<and>
   (zfs p = Some (ZipArchive zms) \<and>
    list_all (\<lambda>name. \<not> isl (strptime_Ymd (first_field (basename name))) \<and>
                       \<not> isl (zip_read zms name))
      (filter (\<lambda>name. endswith name ''.json'') (map fst zms)) \<longrightarrow>
      (\<exists>days. iter_youtube_days zfs p = Inr days)) \<and>
   iter_youtube_days [''data/youtube_top100.zip'' \<mapsto> ZipArchive three_day_archive]
       ''data/youtube_top100.zip'' =
     Inr [((2015, 1, 1), two_entities), ((2015, 1, 2), two_entities), ((2015, 1, 3), two_entities)] \<and>
   map_sum id (map r_date)
       (load_youtube_from_zip [''data/youtube_top100.zip'' \<mapsto> ZipArchive three_day_archive]
          ''data/youtube_top100.zip'') =
     Inr [Some (2015, 1, 1), Some (2015, 1, 1), Some (2015, 1, 2), Some (2015, 1, 2),
          Some (2015, 1, 3), Some (2015, 1, 3)]"
proof (intro conjI impI)
  assume a: "fs p = Some (ZipArchive ms) \<and> load_youtube_from_zip fs p = Inr rows"
  then have "fs p = Some (ZipArchive ms)" and "load_youtube_from_zip fs p = Inr rows" by simp_all
  then have "files_loop ms (json_members ms) [] = Inr rows"
    by (simp add: load_youtube_from_zip_def Let_def split: if_splits)
  from files_loop_dates [OF this]
  show "map r_date rows =
        concat (map (\<lambda>name. replicate (length (member_items ms name)) (filename_date name))
                  (json_members ms))" by simp
next
  assume a: "zfs p = Some (ZipArchive zms) \<and> iter_youtube_days zfs p = Inr days"
  then have "zfs p = Some (ZipArchive zms)" and "iter_youtube_days zfs p = Inr days" by simp_all
  then have "iter_days_loop zms (sort (filter (\<lambda>name. endswith name ''.json'') (map fst zms))) = Inr days"
    by (simp add: iter_youtube_days_def)
  then show "list_all2
        (\<lambda>name day. strptime_Ymd (first_field (basename name)) = Inr (fst day) \<and>
                      zip_read zms name = Inr (snd day))
        (sort (filter (\<lambda>name. endswith name ''.json'') (map fst zms))) days"
    by (rule iter_days_loop_days)
next
  let ?names = "filter (\<lambda>name. endswith name ''.json'') (map fst zms)"
  assume a: "zfs p = Some (ZipArchive zms) \<and> iter_youtube_days zfs p = Inr days \<and>
    list_all (dated_name dir) ?names"
  then have "zfs p = Some (ZipArchive zms)" and "iter_youtube_days zfs p = Inr days" by simp_all
  then have l: "iter_days_loop zms (sort ?names) = Inr days"
    by (simp add: iter_youtube_days_def)
  from a have "list_all (dated_name dir) (sort ?names)" by (simp add: list_all_iff)
  with l show "sorted (map fst days)"
    using iter_days_loop_sorted [of zms "sort ?names" days dir] by simp
next
  let ?names = "filter (\<lambda>name. endswith name ''.json'') (map fst zms)"
  assume a: "zfs p = Some (ZipArchive zms) \<and> name \<in> fst ` set zms \<and> endswith name ''.json'' \<and>
    strptime_Ymd (first_field (basename name)) = Inl e"
  then have "name \<in> set (sort ?names)" by auto
  with a obtain e' where e': "iter_days_loop zms (sort ?names) = Inl e'"
    using iter_days_loop_bad_token by blast
  have "set (sort ?names) \<subseteq> fst ` set zms" by auto
  from iter_days_loop_error [OF this e'] e' have "iter_days_loop zms (sort ?names) = Inl ValueError"
    by simp
  moreover from a have "zfs p = Some (ZipArchive zms)" by simp
  ultimately show "iter_youtube_days zfs p = Inl ValueError" by (simp add: iter_youtube_days_def)
next
  assume a: "fs p = Some (ZipArchive ms) \<and> json_members ms \<noteq> [] \<and>
    list_all (well_formed_member ms) (json_members ms)"
  then obtain rows where "files_loop ms (json_members ms) [] = Inr rows"
    using files_loop_well_formed by blast
  with a show "\<exists>rows. load_youtube_from_zip fs p = Inr rows"
    by (simp add: load_youtube_from_zip_def)
next
  let ?names = "filter (\<lambda>name. endswith name ''.json'') (map fst zms)"
  let ?ok = "\<lambda>name. \<not> isl (strptime_Ymd (first_field (basename name))) \<and> \<not> isl (zip_read zms name)"
  assume a: "zfs p = Some (ZipArchive zms) \<and> list_all ?ok ?names"
  then have "list_all ?ok (sort ?names)" by (simp add: list_all_iff)
  then obtain days where "iter_days_loop zms (sort ?names) = Inr days"
    using iter_days_loop_returns by blast
  moreover from a have "zfs p = Some (ZipArchive zms)" by simp
  ultimately show "\<exists>days. iter_youtube_days zfs p = Inr days"
    by (simp add: iter_youtube_days_def)
next
  show "iter_youtube_days [''data/youtube_top100.zip'' \<mapsto> ZipArchive three_day_archive]
       ''data/youtube_top100.zip'' =
     Inr [((2015, 1, 1), two_entities), ((2015, 1, 2), two_entities), ((2015, 1, 3), two_entities)]"
    by code_simp
next
  show "map_sum id (map r_date)
       (load_youtube_from_zip [''data/youtube_top100.zip'' \<mapsto> ZipArchive three_day_archive]
          ''data/youtube_top100.zip'') =
     Inr [Some (2015, 1, 1), Some (2015, 1, 1), Some (2015, 1, 2), Some (2015, 1, 2),
          Some (2015, 1, 3), Some (2015, 1, 3)]"
    by code_simp
qed

theorem loaders_snapshot_order_counterexample:
  "map_sum id (map r_date)
       (load_youtube_from_zip [''data/youtube_top100.zip'' \<mapsto> ZipArchive shuffled_archive]
          ''data/youtube_top100.zip'') =
     Inr [Some (2015, 1, 3), Some (2015, 1, 3), None, None, Some (2015, 1, 1), Some (2015, 1, 1)] \<and>
   \<not> ((2015, 1, 3) \<le> ((2015, 1, 1) :: date)) \<and>
   iter_youtube_days [''data/youtube_top100.zip'' \<mapsto> ZipArchive shuffled_archive]
       ''data/youtube_top100.zip'' = Inl ValueError"
proof (intro conjI)
  show "map_sum id (map r_date)
       (load_youtube_from_zip [''data/youtube_top100.zip'' \<mapsto> ZipArchive shuffled_archive]
          ''data/youtube_top100.zip'') =
     Inr [Some (2015, 1, 3), Some (2015, 1, 3), None, None, Some (2015, 1, 1), Some (2015, 1, 1)]"
    by code_simp
  show "\<not> ((2015, 1, 3) \<le> ((2015, 1, 1) :: date))" by (simp add: less_eq_prod_def)
  show "iter_youtube_days [''data/youtube_top100.zip'' \<mapsto> ZipArchive shuffled_archive]
       ''data/youtube_top100.zip'' = Inl ValueError"
    by code_simp
qed

theorem loaders_snapshot_order_witness:
  "(\<exists>rows. load_youtube_from_zip [''data/youtube_top100.zip'' \<mapsto> ZipArchive shuffled_archive]
              ''data/youtube_top100.zip'' = Inr rows \<and>
           map r_date rows =
             concat (map (\<lambda>name. replicate (length (member_items shuffled_archive name))
                                   (filename_date name))
                       (json_members shuffled_archive))) \<and>
   list_all (dated_name [])
     (filter (\<lambda>name. endswith name ''.json'') (map fst three_day_archive)) \<and>
   sorted (map fst
     [((2015, 1, 1), two_entities), ((2015, 1, 2), two_entities), ((2015, 1, 3) :: date, two_entities)]) \<and>
   list_all2
     (\<lambda>name day. strptime_Ymd (first_field (basename name)) = Inr (fst day) \<and>
                   zip_read three_day_archive name = Inr (snd day))
     (sort (filter (\<lambda>name. endswith name ''.json'') (map fst three_day_archive)))
     [((2015, 1, 1), two_entities), ((2015, 1, 2), two_entities), ((2015, 1, 3), two_entities)] \<and>
   strptime_Ymd (first_field (basename ''20150230_1800_data.json'')) = Inl ValueError \<and>
   iter_youtube_days [''data/youtube_top100.zip'' \<mapsto> ZipArchive shuffled_archive]
       ''data/youtube_top100.zip'' = Inl ValueError \<and>
   json_members shuffled_archive \<noteq> [] \<and>
   list_all (well_formed_member shuffled_archive) (json_members shuffled_archive) \<and>
   list_all (\<lambda>name. \<not> isl (strptime_Ymd (first_field (basename name))) \<and>
                      \<not> isl (zip_read three_day_archive name))
     (filter (\<lambda>name. endswith name ''.json'') (map fst three_day_archive)) \<and>
   (\<exists>days. iter_youtube_days [''data/youtube_top100.zip'' \<mapsto> ZipArchive three_day_archive]
       ''data/youtube_top100.zip'' = Inr days)"
proof -
  let ?p = "''data/youtube_top100.zip''"
  let ?fs = "[?p \<mapsto> ZipArchive shuffled_archive] :: json filesystem"
  let ?zfs = "[?p \<mapsto> ZipArchive three_day_archive] :: json filesystem"
  let ?days = "[((2015, 1, 1), two_entities), ((2015, 1, 2), two_entities), ((2015, 1, 3) :: date, two_entities)]"
  have f: "?fs ?p = Some (ZipArchive shuffled_archive)" by simp
  have z: "?zfs ?p = Some (ZipArchive three_day_archive)" by simp
  have j5: "json_members shuffled_archive \<noteq> []" by code_simp
  have w5: "list_all (well_formed_member shuffled_archive) (json_members shuffled_archive)"
    by code_simp
  have "\<exists>rows. load_youtube_from_zip ?fs ?p = Inr rows"
    by (rule loaders_snapshot_order [where fs = ?fs and p = ?p and ms = shuffled_archive,
          THEN conjunct2, THEN conjunct2, THEN conjunct2, THEN conjunct2, THEN conjunct1, THEN mp])
      (intro conjI f j5 w5)
  then obtain rows where rows: "load_youtube_from_zip ?fs ?p = Inr rows" ..
  have o6: "list_all (\<lambda>name. \<not> isl (strptime_Ymd (first_field (basename name))) \<and>
                      \<not> isl (zip_read three_day_archive name))
     (filter (\<lambda>name. endswith name ''.json'') (map fst three_day_archive))" by code_simp
  have c6: "\<exists>days. iter_youtube_days ?zfs ?p = Inr days"
    by (rule loaders_snapshot_order [where zfs = ?zfs and p = ?p and zms = three_day_archive,
          THEN conjunct2, THEN conjunct2, THEN conjunct2, THEN conjunct2, THEN conjunct2,
          THEN conjunct1, THEN mp])
      (intro conjI z o6)
  have c1: "map r_date rows =
             concat (map (\<lambda>name. replicate (length (member_items shuffled_archive name))
                                   (filename_date name))
                       (json_members shuffled_archive))"
    by (rule loaders_snapshot_order [where fs = ?fs and p = ?p and ms = shuffled_archive and rows = rows,
          THEN conjunct1, THEN mp]) (intro conjI f rows)
  have d: "iter_youtube_days ?zfs ?p = Inr ?days" by code_simp
  have h: "list_all (dated_name [])
     (filter (\<lambda>name. endswith name ''.json'') (map fst three_day_archive))" by code_simp
  have c2: "list_all2
     (\<lambda>name day. strptime_Ymd (first_field (basename name)) = Inr (fst day) \<and>
                   zip_read three_day_archive name = Inr (snd day))
     (sort (filter (\<lambda>name. endswith name ''.json'') (map fst three_day_archive))) ?days"
    by (rule loaders_snapshot_order [where zfs = ?zfs and p = ?p and zms = three_day_archive and days = ?days,
          THEN conjunct2, THEN conjunct1, THEN mp]) (intro conjI z d)
  have c3: "sorted (map fst ?days)"
    by (rule loaders_snapshot_order [where zfs = ?zfs and p = ?p and zms = three_day_archive
            and days = ?days and dir = "[]",
          THEN conjunct2, THEN conjunct2, THEN conjunct1, THEN mp]) (intro conjI z d h)
  have n: "''20150230_1800_data.json'' \<in> fst ` set shuffled_archive"
    by (simp add: shuffled_archive_def)
  have en: "endswith ''20150230_1800_data.json'' ''.json''" by code_simp
  have b: "strptime_Ymd (first_field (basename ''20150230_1800_data.json'')) = Inl ValueError"
    by code_simp
  have c4: "iter_youtube_days ?fs ?p = Inl ValueError"
    by (rule loaders_snapshot_order [where zfs = ?fs and p = ?p and zms = shuffled_archive
            and name = "''20150230_1800_data.json''" and e = ValueError,
          THEN conjunct2, THEN conjunct2, THEN conjunct2, THEN conjunct1, THEN mp])
      (intro conjI f n en b)
  from rows c1 have c1': "\<exists>rows. load_youtube_from_zip ?fs ?p = Inr rows \<and>
           map r_date rows =
             concat (map (\<lambda>name. replicate (length (member_items shuffled_archive name))
                                   (filename_date name))
                       (json_members shuffled_archive))" by (intro exI conjI)
  show ?thesis by (intro conjI c1' h c3 c2 b c4 j5 w5 o6 c6)
qed
section \<open>Properties of the mapping builder (s3.py)\<close>

subsection \<open>Both archives load\<close>

lemma split_prefix: "split sep s = w # ws \<Longrightarrow> prefix w s"
proof (induction s arbitrary: w ws)
  case Nil
  then show ?case by simp
next
  case (Cons c s)
  show ?case
  proof (cases "c = sep")
    case True
    with Cons.prems show ?thesis by simp
  next
    case False
    obtain v vs where v: "split sep s = v # vs"
      using split_not_Nil [of sep s] by (cases "split sep s") auto
    with False Cons.prems have "w = c # v" by simp
    with Cons.IH [OF v] show ?thesis by simp
  qed
qed

lemma first_field_in: "str_in (first_field s) s"
proof -
  obtain w ws where w: "split CHR ''_'' s = w # ws"
    using split_not_Nil [of "CHR ''_''" s] by (cases "split CHR ''_'' s") auto
  then have "prefix w s" by (rule split_prefix)
  then have "sublist w s" by (rule prefix_imp_sublist)
  with w show ?thesis by (simp add: str_in_def first_field_def)
qed

lemma pick_returns:
  assumes "f \<in> set files" "str_in d (basename f)"
  shows "\<exists>c\<in>set files. pick_spotify_file_for_date files d = Inr c"
proof -
  let ?cands = "filter (\<lambda>f. str_in d (basename f)) files"
  from assms have ne: "?cands \<noteq> []" by (auto simp: filter_empty_conv)
  show ?thesis
  proof (cases "find (\<lambda>c. str_in ''_1800_'' c) ?cands")
    case None
    from ne have "sort ?cands \<noteq> []" by (metis length_0_conv length_sort)
    then obtain c cs where c: "sort ?cands = c # cs" by (cases "sort ?cands") auto
    then have "c \<in> set (sort ?cands)" by simp
    then have "c \<in> set files" by simp
    moreover from None ne c have "pick_spotify_file_for_date files d = Inr c"
      by (simp add: pick_spotify_file_for_date_def Let_def)
    ultimately show ?thesis by blast
  next
    case (Some c)
    then obtain i where "i < length ?cands" "c = ?cands ! i"
      unfolding find_Some_iff by blast
    then have "c \<in> set ?cands" by (metis nth_mem)
    then have "c \<in> set files" by simp
    moreover from Some ne have "pick_spotify_file_for_date files d = Inr c"
      by (simp add: pick_spotify_file_for_date_def Let_def)
    ultimately show ?thesis by blast
  qed
qed

lemma spotify_days_loop_returns:
  assumes "\<forall>d\<in>set dates. \<exists>f\<in>set files. d = first_field (basename f)"
    and "\<forall>f\<in>set files. \<not> isl (strptime_Ymd (first_field (basename f))) \<and> chart_member ms f"
  shows "\<exists>days. spotify_days_loop ms files dates = Inr days"
  using assms(1)
proof (induction dates)
  case Nil
  then show ?case by simp
next
  case (Cons d dates)
  then obtain f where f: "f \<in> set files" "d = first_field (basename f)" by auto
  then have "str_in d (basename f)" by (simp add: first_field_in)
  from pick_returns [OF f(1) this] obtain c where c: "c \<in> set files"
    "pick_spotify_file_for_date files d = Inr c" by blast
  from assms(2) c(1) have "chart_member ms c" by blast
  then obtain entries where z: "zip_read ms c = Inr (Chart entries)"
    by (auto simp: chart_member_def split: sum.splits document.splits)
  from assms(2) f have "\<not> isl (strptime_Ymd d)" by blast
  then obtain date where p: "strptime_Ymd d = Inr date" by (cases "strptime_Ymd d") auto
  from Cons obtain days where "spotify_days_loop ms files dates = Inr days" by auto
  with c(2) z p show ?case by simp
qed

lemma iter_spotify_days_returns:
  assumes "fs zip_path = Some (ZipArchive sms)"
    and "list_all (\<lambda>name. \<not> isl (strptime_Ymd (first_field (basename name))) \<and> chart_member sms name)
           (filter (\<lambda>name. endswith name ''.json'') (map fst sms))"
  shows "\<exists>sp_days. iter_spotify_days fs zip_path = Inr sp_days"
proof -
  let ?files = "sort (filter (\<lambda>n. endswith n ''.json'') (map fst sms))"
  let ?dates = "sort (remdups (map (\<lambda>f. first_field (basename f)) ?files))"
  have "\<forall>d\<in>set ?dates. \<exists>f\<in>set ?files. d = first_field (basename f)" by auto
  moreover from assms(2)
  have "\<forall>f\<in>set ?files. \<not> isl (strptime_Ymd (first_field (basename f))) \<and> chart_member sms f"
    by (simp add: list_all_iff)
  ultimately obtain days where "spotify_days_loop sms ?files ?dates = Inr days"
    using spotify_days_loop_returns by blast
  with assms(1) show ?thesis by (simp add: iter_spotify_days_def spotify_json_files_def)
qed

lemma iter_youtube_days_returns:
  assumes "fs zip_path = Some (ZipArchive yms)"
    and "list_all (\<lambda>name. \<not> isl (strptime_Ymd (first_field (basename name))) \<and> \<not> isl (zip_read yms name))
           (filter (\<lambda>name. endswith name ''.json'') (map fst yms))"
  shows "\<exists>yt_days. iter_youtube_days fs zip_path = Inr yt_days"
proof -
  let ?names = "filter (\<lambda>name. endswith name ''.json'') (map fst yms)"
  from assms(2) have "list_all (\<lambda>name. \<not> isl (strptime_Ymd (first_field (basename name))) \<and>
     \<not> isl (zip_read yms name)) (sort ?names)" by (simp add: list_all_iff)
  then obtain days where "iter_days_loop yms (sort ?names) = Inr days"
    using iter_days_loop_returns by blast
  with assms(1) show ?thesis by (simp add: iter_youtube_days_def)
qed

subsection \<open>No common snapshot date\<close>

text \<open>
  C6. When both archives load and the loaded data sets have no snapshot date in common,
  the matcher returns the empty mapping and raises no error. An exception of either
  loader ends the matcher with that exception. The YouTube archive loads when each of
  its JSON members has a date token that parses and a content that is JSON; the Spotify
  archive loads when each of its JSON members has a date token that parses and a chart
  as content. With the common date 2015-11-09 the mapping is not empty.
\<close>

theorem mapping_empty_without_common_date:
  "(iter_youtube_days fs YOUTUBE_ZIP = Inr yt_days \<and> iter_spotify_days fs SPOTIFY_ZIP = Inr sp_days \<and>
    fst ` set yt_days \<inter> fst ` set sp_days = {}
      \<longrightarrow> build_spotify_youtube_mapping fs = Inr Map.empty) \<and>
   (iter_youtube_days fs YOUTUBE_ZIP = Inl e \<longrightarrow> build_spotify_youtube_mapping fs = Inl e) \<and>
   (iter_youtube_days fs YOUTUBE_ZIP = Inr yt_days \<and> iter_spotify_days fs SPOTIFY_ZIP = Inl e
      \<longrightarrow> build_spotify_youtube_mapping fs = Inl e) \<and>
   (fs YOUTUBE_ZIP = Some (ZipArchive yms) \<and>
    list_all (\<lambda>name. \<not> isl (strptime_Ymd (first_field (basename name))) \<and> \<not> isl (zip_read yms name))
      (filter (\<lambda>name. endswith name ''.json'') (map fst yms))
      \<longrightarrow> (\<exists>days. iter_youtube_days fs YOUTUBE_ZIP = Inr days)) \<and>
   (fs SPOTIFY_ZIP = Some (ZipArchive sms) \<and>
    list_all (\<lambda>name. \<not> isl (strptime_Ymd (first_field (basename name))) \<and> chart_member sms name)
      (filter (\<lambda>name. endswith name ''.json'') (map fst sms))
      \<longrightarrow> (\<exists>days. iter_spotify_days fs SPOTIFY_ZIP = Inr days)) \<and>
   build_spotify_youtube_mapping disjoint_fs = Inr Map.empty \<and>
   (case build_spotify_youtube_mapping common_day_fs of Inl e \<Rightarrow> None | Inr m \<Rightarrow> m ''a1'')
     = Some ''b1''"
proof (intro conjI impI)
  assume a: "iter_youtube_days fs YOUTUBE_ZIP = Inr yt_days \<and> iter_spotify_days fs SPOTIFY_ZIP = Inr sp_days \<and>
    fst ` set yt_days \<inter> fst ` set sp_days = {}"
  then have "set (common_dates yt_days sp_days) = {}" by (simp add: set_common_dates)
  then have "common_dates yt_days sp_days = []" by simp
  with a show "build_spotify_youtube_mapping fs = Inr Map.empty"
    by (simp add: build_spotify_youtube_mapping_def)
next
  assume "iter_youtube_days fs YOUTUBE_ZIP = Inl e"
  then show "build_spotify_youtube_mapping fs = Inl e"
    by (simp add: build_spotify_youtube_mapping_def)
next
  assume "iter_youtube_days fs YOUTUBE_ZIP = Inr yt_days \<and> iter_spotify_days fs SPOTIFY_ZIP = Inl e"
  then show "build_spotify_youtube_mapping fs = Inl e"
    by (simp add: build_spotify_youtube_mapping_def)
next
  assume "fs YOUTUBE_ZIP = Some (ZipArchive yms) \<and>
    list_all (\<lambda>name. \<not> isl (strptime_Ymd (first_field (basename name))) \<and> \<not> isl (zip_read yms name))
      (filter (\<lambda>name. endswith name ''.json'') (map fst yms))"
  then show "\<exists>days. iter_youtube_days fs YOUTUBE_ZIP = Inr days"
    using iter_youtube_days_returns by blast
next
  assume "fs SPOTIFY_ZIP = Some (ZipArchive sms) \<and>
    list_all (\<lambda>name. \<not> isl (strptime_Ymd (first_field (basename name))) \<and> chart_member sms name)
      (filter (\<lambda>name. endswith name ''.json'') (map fst sms))"
  then show "\<exists>days. iter_spotify_days fs SPOTIFY_ZIP = Inr days"
    using iter_spotify_days_returns by blast
next
  show "build_spotify_youtube_mapping disjoint_fs = Inr Map.empty"
  proof -
    have y: "iter_youtube_days disjoint_fs YOUTUBE_ZIP = Inr [((2015, 11, 9), VideoList [hello_video])]"
      by code_simp
    have s: "iter_spotify_days disjoint_fs SPOTIFY_ZIP =
        Inr [((2015, 11, 10),
              [\<lparr>sp_id = ''a1'', sp_name = ''Hello'', sp_artists = ''Adele'', sp_position = 1\<rparr>])]"
      by code_simp
    have "common_dates [((2015, 11, 9), VideoList [hello_video])]
        [((2015, 11, 10),
              [\<lparr>sp_id = ''a1'', sp_name = ''Hello'', sp_artists = ''Adele'', sp_position = 1\<rparr>])] = []"
      by (simp add: common_dates_def)
    with y s show ?thesis by (simp add: build_spotify_youtube_mapping_def)
  qed
next
  show "(case build_spotify_youtube_mapping common_day_fs of Inl e \<Rightarrow> None | Inr m \<Rightarrow> m ''a1'')
     = Some ''b1''"
    by code_simp
qed

theorem mapping_empty_without_common_date_counterexample:
  "strptime_Ymd (first_field (basename ''20151109_1800_data.json'')) = Inr (2015, 11, 9) \<and>
   strptime_Ymd (first_field (basename ''notes.json'')) = Inl ValueError \<and>
   iter_spotify_days stray_member_fs SPOTIFY_ZIP =
     Inr [((2015, 11, 10),
           [\<lparr>sp_id = ''a1'', sp_name = ''Hello'', sp_artists = ''Adele'', sp_position = 1\<rparr>])] \<and>
   build_spotify_youtube_mapping stray_member_fs = Inl ValueError"
proof (intro conjI)
  show "strptime_Ymd (first_field (basename ''20151109_1800_data.json'')) = Inr (2015, 11, 9)"
    by code_simp
  show "strptime_Ymd (first_field (basename ''notes.json'')) = Inl ValueError" by code_simp
  show "iter_spotify_days stray_member_fs SPOTIFY_ZIP =
     Inr [((2015, 11, 10),
           [\<lparr>sp_id = ''a1'', sp_name = ''Hello'', sp_artists = ''Adele'', sp_position = 1\<rparr>])]"
    by code_simp
  have "iter_youtube_days stray_member_fs YOUTUBE_ZIP = Inl ValueError" by code_simp
  then show "build_spotify_youtube_mapping stray_member_fs = Inl ValueError"
    by (simp add: build_spotify_youtube_mapping_def)
qed

theorem mapping_empty_without_common_date_witness:
  "iter_youtube_days disjoint_fs YOUTUBE_ZIP = Inr [((2015, 11, 9), VideoList [hello_video])] \<and>
   iter_spotify_days disjoint_fs SPOTIFY_ZIP =
     Inr [((2015, 11, 10),
           [\<lparr>sp_id = ''a1'', sp_name = ''Hello'', sp_artists = ''Adele'', sp_position = 1\<rparr>])] \<and>
   fst ` set [((2015, 11, 9) :: date, VideoList [hello_video])] \<inter>
     fst ` set [((2015, 11, 10) :: date,
           [\<lparr>sp_id = ''a1'', sp_name = ''Hello'', sp_artists = ''Adele'', sp_position = 1\<rparr>])] = {} \<and>
   build_spotify_youtube_mapping disjoint_fs = Inr Map.empty \<and>
   iter_youtube_days (Map.empty :: document filesystem) YOUTUBE_ZIP = Inl FileNotFoundError \<and>
   build_spotify_youtube_mapping Map.empty = Inl FileNotFoundError \<and>
   iter_spotify_days youtube_only_fs SPOTIFY_ZIP = Inl FileNotFoundError \<and>
   build_spotify_youtube_mapping youtube_only_fs = Inl FileNotFoundError \<and>
   (\<exists>days. iter_youtube_days disjoint_fs YOUTUBE_ZIP = Inr days) \<and>
   (\<exists>days. iter_spotify_days disjoint_fs SPOTIFY_ZIP = Inr days)"
proof -
  let ?yt = "[((2015, 11, 9) :: date, VideoList [hello_video])]"
  let ?sp = "[((2015, 11, 10) :: date,
           [\<lparr>sp_id = ''a1'', sp_name = ''Hello'', sp_artists = ''Adele'', sp_position = 1\<rparr>])]"
  let ?yms = "[(''20151109_1800_data.json'', Some (VideoList [hello_video]))]"
  let ?sms = "[(''20151110_1800_spotify.json'', Some hello_chart)]"
  have y: "iter_youtube_days disjoint_fs YOUTUBE_ZIP = Inr ?yt" by code_simp
  have s: "iter_spotify_days disjoint_fs SPOTIFY_ZIP = Inr ?sp" by code_simp
  have d: "fst ` set ?yt \<inter> fst ` set ?sp = {}" by simp
  have c1: "build_spotify_youtube_mapping disjoint_fs = Inr Map.empty"
    by (rule mapping_empty_without_common_date [where fs = disjoint_fs and yt_days = ?yt and sp_days = ?sp,
          THEN conjunct1, THEN mp]) (intro conjI y s d)
  have y2: "iter_youtube_days (Map.empty :: document filesystem) YOUTUBE_ZIP = Inl FileNotFoundError"
    by (simp add: iter_youtube_days_def)
  have c2: "build_spotify_youtube_mapping Map.empty = Inl FileNotFoundError"
    by (rule mapping_empty_without_common_date [where fs = Map.empty and e = FileNotFoundError,
          THEN conjunct2, THEN conjunct1, THEN mp]) (rule y2)
  have y3: "iter_youtube_days youtube_only_fs YOUTUBE_ZIP = Inr ?yt" by code_simp
  have s3: "iter_spotify_days youtube_only_fs SPOTIFY_ZIP = Inl FileNotFoundError" by code_simp
  have c3: "build_spotify_youtube_mapping youtube_only_fs = Inl FileNotFoundError"
    by (rule mapping_empty_without_common_date [where fs = youtube_only_fs and yt_days = ?yt
            and e = FileNotFoundError,
          THEN conjunct2, THEN conjunct2, THEN conjunct1, THEN mp]) (intro conjI y3 s3)
  have f4: "disjoint_fs YOUTUBE_ZIP = Some (ZipArchive ?yms)" by code_simp
  have h4: "list_all (\<lambda>name. \<not> isl (strptime_Ymd (first_field (basename name))) \<and>
                             \<not> isl (zip_read ?yms name))
      (filter (\<lambda>name. endswith name ''.json'') (map fst ?yms))" by code_simp
  have c4: "\<exists>days. iter_youtube_days disjoint_fs YOUTUBE_ZIP = Inr days"
    by (rule mapping_empty_without_common_date [where fs = disjoint_fs and yms = ?yms,
          THEN conjunct2, THEN conjunct2, THEN conjunct2, THEN conjunct1, THEN mp]) (intro conjI f4 h4)
  have f5: "disjoint_fs SPOTIFY_ZIP = Some (ZipArchive ?sms)" by code_simp
  have h5: "list_all (\<lambda>name. \<not> isl (strptime_Ymd (first_field (basename name))) \<and>
                             chart_member ?sms name)
      (filter (\<lambda>name. endswith name ''.json'') (map fst ?sms))" by code_simp
  have c5: "\<exists>days. iter_spotify_days disjoint_fs SPOTIFY_ZIP = Inr days"
    by (rule mapping_empty_without_common_date [where fs = disjoint_fs and sms = ?sms,
          THEN conjunct2, THEN conjunct2, THEN conjunct2, THEN conjunct2, THEN conjunct1, THEN mp])
      (intro conjI f5 h5)
  show ?thesis by (intro conjI y s d c1 y2 c2 s3 c3 c4 c5)
qed


end
